theory Spec2Isabelle
  imports Complex_Main "HOL-Library.Multiset"
begin

section \<open>Synthetic data by SMOTE: the notebook's cells as functions\<close>

text \<open>
  The notebook works on pandas frames whose cells are all floating point
  (\<^verbatim>\<open>data = data.astype(float)\<close>). A cell value is modelled as a \<^typ>\<open>real\<close>: the
  finite values the pipeline handles behave like reals in every comparison made
  here; NaN and infinities are outside the model.

  Exceptions are values of \<open>error\<close>; a cell that raises returns \<open>Inl\<close>.
\<close>

datatype error = ValueError | KeyError | IndexError

text \<open>Statements in sequence: the first exception ends the cell.\<close>

definition bind :: "error + 'a \<Rightarrow> ('a \<Rightarrow> error + 'b) \<Rightarrow> error + 'b" where
  "bind m f = (case m of Inl e \<Rightarrow> Inl e | Inr a \<Rightarrow> f a)"

subsection \<open>Series objects and the store\<close>

text \<open>
  A pandas Series is a list of (label, value) pairs. Series are objects: a variable
  holds a reference, and \<^verbatim>\<open>x *= 0.0\<close> or \<^verbatim>\<open>x[i] = v\<close> change the object every
  holder of the reference sees. The store is the list of all Series objects, an
  address is a position in it, and a new object is put at the end.
\<close>

type_synonym series = "(string \<times> real) list"
type_synonym addr = nat
type_synonym store = "series list"

definition alloc :: "series \<Rightarrow> store \<Rightarrow> addr \<times> store" where
  "alloc x s = (length s, s @ [x])"

subsection \<open>\<^verbatim>\<open>make_one_hot\<close>\<close>

text \<open>
  \<^verbatim>\<open>np.argmax\<close>: the position of the first largest value; the scan replaces the
  running best only by a strictly larger value. On an empty sequence it raises
  \<^verbatim>\<open>ValueError\<close>.
\<close>

fun argmax_scan :: "nat \<Rightarrow> real \<Rightarrow> nat \<Rightarrow> real list \<Rightarrow> nat" where
  "argmax_scan best m i [] = best"
| "argmax_scan best m i (v # vs) =
     (if m < v then argmax_scan i v (Suc i) vs else argmax_scan best m (Suc i) vs)"

fun argmax :: "real list \<Rightarrow> error + nat" where
  "argmax [] = Inl ValueError"
| "argmax (v # vs) = Inr (argmax_scan 0 v 1 vs)"

text \<open>
  \<^verbatim>\<open>
  def make_one_hot(x):
      highest = np.argmax(x)
      x *= 0.0
      x[highest] = 1.0
      return x
  \<close>
  The argument is a reference; both assignments act on the object it refers to, and
  the reference itself is returned. \<^verbatim>\<open>highest\<close> is a position of \<^verbatim>\<open>x\<close>, so the second
  assignment is always in range. (On a Python list \<^verbatim>\<open>x *= 0.0\<close> is a type error; the
  notebook passes a Series.)
\<close>

definition imul :: "addr \<Rightarrow> real \<Rightarrow> store \<Rightarrow> store" where
  "imul x c s = s[x := map (\<lambda>(l, v). (l, v * c)) (s ! x)]"

definition setitem_pos :: "addr \<Rightarrow> nat \<Rightarrow> real \<Rightarrow> store \<Rightarrow> store" where
  "setitem_pos x i c s = s[x := (s ! x)[i := (fst (s ! x ! i), c)]]"

definition make_one_hot :: "addr \<Rightarrow> store \<Rightarrow> error + (addr \<times> store)" where
  "make_one_hot x s =
     (case argmax (map snd (s ! x)) of
        Inl e \<Rightarrow> Inl e
      | Inr highest \<Rightarrow>
          (let s1 = imul x 0.0 s;
               s2 = setitem_pos x highest 1.0 s1
           in Inr (x, s2)))"

text \<open>The one-hot vector of length \<open>n\<close> with its 1 at position \<open>h\<close>.\<close>

definition one_hot :: "nat \<Rightarrow> nat \<Rightarrow> real list" where
  "one_hot h n = map (\<lambda>i. if i = h then 1 else 0) [0..<n]"

text \<open>\<open>first_max vs h\<close>: \<open>h\<close> is the first position of \<open>vs\<close> holding its largest value.\<close>

definition first_max :: "real list \<Rightarrow> nat \<Rightarrow> bool" where
  "first_max vs h \<longleftrightarrow>
     h < length vs \<and> (\<forall>k < length vs. vs ! k \<le> vs ! h) \<and> (\<forall>k < h. vs ! k < vs ! h)"

subsection \<open>Data frames\<close>

text \<open>
  A DataFrame is its list of column names and its rows, each row holding one value
  per column. pandas keeps both lengths equal, and \<^verbatim>\<open>read_csv\<close> gives distinct
  column names: this is \<open>well_formed\<close>.
\<close>

record dataframe =
  columns :: "string list"
  rows :: "real list list"

definition well_formed :: "dataframe \<Rightarrow> bool" where
  "well_formed df \<longleftrightarrow>
     distinct (columns df) \<and> (\<forall>r \<in> set (rows df). length r = length (columns df))"

text \<open>\<^verbatim>\<open>df.loc[i, c]\<close> by row position: the value of row \<open>i\<close> in column \<open>c\<close>.\<close>

definition loc :: "dataframe \<Rightarrow> nat \<Rightarrow> string \<Rightarrow> real" where
  "loc df i c = the (map_of (zip (columns df) (rows df ! i)) c)"

text \<open>
  \<^verbatim>\<open>df[c]\<close> reads a column (\<^verbatim>\<open>KeyError\<close> when there is none of that name).
  \<^verbatim>\<open>df[c] = values\<close> with a list assigns by position, whatever the order of the
  frame's index: it raises \<^verbatim>\<open>ValueError\<close> when the list has not one value per row,
  overwrites the column \<open>c\<close> in place when the frame has one, and otherwise adds
  \<open>c\<close> as the new last column.
\<close>

fun index_of :: "string list \<Rightarrow> string \<Rightarrow> nat option" where
  "index_of [] c = None"
| "index_of (x # xs) c = (if x = c then Some 0 else map_option Suc (index_of xs c))"

definition getitem_col :: "dataframe \<Rightarrow> string \<Rightarrow> error + real list" where
  "getitem_col df c =
     (case index_of (columns df) c of
        None \<Rightarrow> Inl KeyError
      | Some k \<Rightarrow> Inr (map (\<lambda>r. r ! k) (rows df)))"

definition setitem_col :: "dataframe \<Rightarrow> string \<Rightarrow> real list \<Rightarrow> error + dataframe" where
  "setitem_col df c vs =
     (if length vs \<noteq> length (rows df) then Inl ValueError
      else (case index_of (columns df) c of
              None \<Rightarrow> Inr \<lparr>columns = columns df @ [c],
                            rows = map (\<lambda>(r, v). r @ [v]) (zip (rows df) vs)\<rparr>
            | Some k \<Rightarrow> Inr (df\<lparr>rows := map (\<lambda>(r, v). r[k := v]) (zip (rows df) vs)\<rparr>)))"

text \<open>\<^verbatim>\<open>df[mask]\<close> keeps the rows whose entry in the boolean list is true.\<close>

definition boolean_index :: "dataframe \<Rightarrow> bool list \<Rightarrow> dataframe" where
  "boolean_index df selected = df\<lparr>rows := map fst (filter snd (zip (rows df) selected))\<rparr>"

text \<open>
  \<^verbatim>\<open>df.sample(n)\<close> draws \<open>n\<close> rows without replacement: numpy permutes the row
  positions and the first \<open>n\<close> of the permutation are taken; asking for more rows
  than there are raises \<^verbatim>\<open>ValueError\<close>. No call in the notebook passes
  \<^verbatim>\<open>random_state\<close>, so the permutation comes from numpy's global generator; it is
  the argument \<open>draw\<close> here, and \<open>is_permutation n draw\<close> says that it is a
  permutation of the positions \<open>0..<n\<close>. \<^verbatim>\<open>df.sample(frac=1.0)\<close> draws all rows.
\<close>

definition is_permutation :: "nat \<Rightarrow> nat list \<Rightarrow> bool" where
  "is_permutation n draw \<longleftrightarrow> length draw = n \<and> distinct draw \<and> list_all (\<lambda>i. i < n) draw"

definition sample :: "nat list \<Rightarrow> nat \<Rightarrow> dataframe \<Rightarrow> error + dataframe" where
  "sample draw n df =
     (if length (rows df) < n then Inl ValueError
      else Inr (df\<lparr>rows := map (\<lambda>i. rows df ! i) (take n draw)\<rparr>))"

definition sample_frac1 :: "nat list \<Rightarrow> dataframe \<Rightarrow> error + dataframe" where
  "sample_frac1 draw df = sample draw (length (rows df)) df"

text \<open>
  \<^verbatim>\<open>sort_values(c, ascending=False)\<close>, \<^verbatim>\<open>head(n)\<close>, and \<^verbatim>\<open>pd.concat\<close> of two frames
  with the same columns, one under the other. (pandas leaves the order of rows
  with equal keys open; the model keeps them in their order.)
\<close>

definition sort_values_desc :: "dataframe \<Rightarrow> string \<Rightarrow> error + dataframe" where
  "sort_values_desc df c =
     (case index_of (columns df) c of
        None \<Rightarrow> Inl KeyError
      | Some k \<Rightarrow> Inr (df\<lparr>rows := sort_key (\<lambda>r. - (r ! k)) (rows df)\<rparr>))"

definition head :: "nat \<Rightarrow> dataframe \<Rightarrow> dataframe" where
  "head n df = df\<lparr>rows := take n (rows df)\<rparr>"

definition concat_rows :: "dataframe \<Rightarrow> dataframe \<Rightarrow> dataframe" where
  "concat_rows a b = a\<lparr>rows := rows a @ rows b\<rparr>"

subsection \<open>\<^verbatim>\<open>standardise_data\<close>\<close>

text \<open>
  \<^verbatim>\<open>
  def standardise_data(X_train, X_test):
      sc = StandardScaler()
      sc.fit(X_train)
      train_std=sc.transform(X_train)
      test_std=sc.transform(X_test)
      return train_std, test_std
  \<close>
  scikit-learn's \<^verbatim>\<open>StandardScaler\<close>: \<^verbatim>\<open>fit\<close> takes, per feature, the mean and the
  standard deviation (the root of the population variance), and a standard
  deviation of zero is replaced by 1; \<^verbatim>\<open>transform\<close> gives \<open>(x - mean) / scale\<close>.
  Both raise \<^verbatim>\<open>ValueError\<close> on an array without rows, and \<^verbatim>\<open>transform\<close> on rows of
  another width than the fitted one.
\<close>

definition mean :: "real list \<Rightarrow> real" where
  "mean xs = sum_list xs / real (length xs)"

definition variance :: "real list \<Rightarrow> real" where
  "variance xs = (let m = mean xs in sum_list (map (\<lambda>x. (x - m)\<^sup>2) xs) / real (length xs))"

definition handle_zeros_in_scale :: "real \<Rightarrow> real" where
  "handle_zeros_in_scale s = (if s = 0 then 1 else s)"

record scaler =
  means :: "real list"
  scales :: "real list"

definition feature :: "real list list \<Rightarrow> nat \<Rightarrow> real list" where
  "feature X j = map (\<lambda>row. row ! j) X"

definition fit :: "real list list \<Rightarrow> error + scaler" where
  "fit X =
     (case X of
        [] \<Rightarrow> Inl ValueError
      | r # _ \<Rightarrow>
          Inr \<lparr>means = map (\<lambda>j. mean (feature X j)) [0..<length r],
               scales = map (\<lambda>j. handle_zeros_in_scale (sqrt (variance (feature X j))))
                            [0..<length r]\<rparr>)"

definition transform :: "scaler \<Rightarrow> real list list \<Rightarrow> error + real list list" where
  "transform sc X =
     (if X = [] \<or> list_ex (\<lambda>row. length row \<noteq> length (means sc)) X then Inl ValueError
      else Inr (map (\<lambda>row. map (\<lambda>(x, m, s). (x - m) / s)
                                (zip row (zip (means sc) (scales sc)))) X))"

definition standardise_data ::
  "real list list \<Rightarrow> real list list \<Rightarrow> error + (real list list \<times> real list list)" where
  "standardise_data X_train X_test =
     bind (fit X_train) (\<lambda>sc.
     bind (transform sc X_train) (\<lambda>train_std.
     bind (transform sc X_test) (\<lambda>test_std.
     Inr (train_std, test_std))))"

subsection \<open>Euclidean distance and nearest neighbours\<close>

text \<open>
  scikit-learn's \<^verbatim>\<open>NearestNeighbors(n_neighbors=n).fit(fitted)\<close>, asked by
  \<^verbatim>\<open>kneighbors(Q, return_distance=False)\<close>, gives for every query point the positions
  of the \<open>n\<close> fitted points closest to it in Euclidean distance, the closest
  first, and raises \<^verbatim>\<open>ValueError\<close> when fewer than \<open>n\<close> points are fitted.
  (scikit-learn leaves the order of points at equal distance open; the model
  takes them in the order of their positions.)
\<close>

definition euclidean :: "real list \<Rightarrow> real list \<Rightarrow> real" where
  "euclidean a b = sqrt (sum_list (map (\<lambda>(x, y). (x - y)\<^sup>2) (zip a b)))"

definition kneighbors_indices ::
  "nat \<Rightarrow> real list list \<Rightarrow> real list list \<Rightarrow> error + nat list list" where
  "kneighbors_indices n_neighbors fitted Q =
     (if length fitted < n_neighbors then Inl ValueError
      else Inr (map (\<lambda>q. take n_neighbors
                            (sort_key (\<lambda>i. euclidean q (fitted ! i)) [0..<length fitted])) Q))"

subsection \<open>\<^verbatim>\<open>SMOTE(sampling_strategy=...).fit_resample\<close>\<close>

text \<open>
  The over-sampler of imbalanced-learn, with its default of 5 neighbours. The
  sampling strategy is a dictionary from class to the wanted number of samples
  of that class; it is refused with \<^verbatim>\<open>ValueError\<close> when a class of the dictionary
  does not occur in \<^verbatim>\<open>y\<close> or when a wanted number is negative or below the number
  the class has, and otherwise turned into the numbers of samples to make.
\<close>

definition k_neighbors :: nat where
  "k_neighbors = 5"

definition check_sampling_strategy :: "(real \<times> int) list \<Rightarrow> real list \<Rightarrow> error + (real \<times> int) list" where
  "check_sampling_strategy sampling_strategy y =
     (if list_ex (\<lambda>(class_sample, n_samples). class_sample \<notin> set y) sampling_strategy
        then Inl ValueError
      else if list_ex (\<lambda>(class_sample, n_samples). n_samples < 0) sampling_strategy
        then Inl ValueError
      else if list_ex (\<lambda>(class_sample, n_samples). n_samples < int (count_list y class_sample))
                sampling_strategy
        then Inl ValueError
      else Inr (map (\<lambda>(class_sample, n_samples).
                       (class_sample, n_samples - int (count_list y class_sample)))
                    sampling_strategy))"

text \<open>
  \<^verbatim>\<open>
  samples_indices = random_state.randint(low=0, high=nn_num.size, size=n_samples)
  steps = step_size * random_state.uniform(size=n_samples)[:, np.newaxis]
  rows = np.floor_divide(samples_indices, nn_num.shape[1])
  cols = np.mod(samples_indices, nn_num.shape[1])
  X_new = X[rows] + steps * (nn_data[nn_num[rows, cols]] - X[rows])
  \<close>
  The new points of one class: \<^verbatim>\<open>nn_num\<close> holds, for every point of the class, the
  positions of its 5 neighbours. The random numbers are the argument \<open>draws\<close>, a
  list of pairs of a sample index and a step; \<open>smote_draws_ok\<close> says what numpy
  hands out: one pair per new sample, the index below the size of \<^verbatim>\<open>nn_num\<close> and
  the step in \<open>[0, 1)\<close>.
\<close>

definition interpolate :: "real list \<Rightarrow> real list \<Rightarrow> real \<Rightarrow> real list" where
  "interpolate p q step = map (\<lambda>(x, z). x + step * (z - x)) (zip p q)"

definition make_samples ::
  "real list list \<Rightarrow> nat list list \<Rightarrow> nat \<Rightarrow> (nat \<times> real) list \<Rightarrow> real list list" where
  "make_samples X_class nn_num n_samples draws =
     map (\<lambda>(samples_index, step).
            (let row = samples_index div k_neighbors;
                 col = samples_index mod k_neighbors
             in interpolate (X_class ! row) (X_class ! (nn_num ! row ! col)) step))
         (take n_samples draws)"

definition smote_draws_ok :: "nat \<Rightarrow> nat \<Rightarrow> (nat \<times> real) list \<Rightarrow> bool" where
  "smote_draws_ok n_class n_samples draws \<longleftrightarrow>
     length draws = n_samples \<and>
     list_all (\<lambda>(samples_index, step).
                 samples_index < n_class * k_neighbors \<and> 0 \<le> step \<and> step < 1) draws"

text \<open>
  \<^verbatim>\<open>
  for class_sample, n_samples in self.sampling_strategy_.items():
      if n_samples == 0:
          continue
      target_class_indices = np.flatnonzero(y == class_sample)
      X_class = _safe_indexing(X, target_class_indices)
      self.nn_k_.fit(X_class)
      nns = self.nn_k_.kneighbors(X_class, return_distance=False)[:, 1:]
      X_new, y_new = self._make_samples(X_class, y.dtype, class_sample, X_class, nns, n_samples, 1.0)
      X_resampled.append(X_new)
      y_resampled.append(y_new)
  \<close>
  \<^verbatim>\<open>nn_k_\<close> looks for \<open>k_neighbors + 1\<close> neighbours, the point itself and 5 more, so a
  class of which samples are to be made needs at least 6 points. The result of
  \<^verbatim>\<open>fit_resample\<close> is the given data followed by the new samples, class after class.
\<close>

fun smote_loop ::
  "(real \<Rightarrow> (nat \<times> real) list) \<Rightarrow> (real \<times> int) list \<Rightarrow> real list list \<Rightarrow> real list \<Rightarrow>
     error + (real list list \<times> real list)" where
  "smote_loop draws [] X y = Inr ([], [])"
| "smote_loop draws ((class_sample, n_samples) # rest) X y =
     (if n_samples = 0 then smote_loop draws rest X y
      else
        (let X_class = map fst (filter (\<lambda>(x, l). l = class_sample) (zip X y))
         in bind (kneighbors_indices (k_neighbors + 1) X_class X_class) (\<lambda>nn.
            (let nns = map tl nn;
                 X_new = make_samples X_class nns (nat n_samples) (draws class_sample);
                 y_new = replicate (nat n_samples) class_sample
             in bind (smote_loop draws rest X y) (\<lambda>(X_more, y_more).
                  Inr (X_new @ X_more, y_new @ y_more))))))"

definition fit_resample ::
  "(real \<Rightarrow> (nat \<times> real) list) \<Rightarrow> (real \<times> int) list \<Rightarrow> real list list \<Rightarrow> real list \<Rightarrow>
     error + (real list list \<times> real list)" where
  "fit_resample draws sampling_strategy X y =
     (if X = [] \<or> length X \<noteq> length y then Inl ValueError
      else bind (check_sampling_strategy sampling_strategy y) (\<lambda>to_make.
           bind (smote_loop draws to_make X y) (\<lambda>(X_new, y_new).
           Inr (X @ X_new, y @ y_new))))"

subsection \<open>\<^verbatim>\<open>make_synthetic_data_smote\<close>\<close>

text \<open>
  \<^verbatim>\<open>
  def make_synthetic_data_smote(X, y, number_of_samples=[1000,1000]):
      count_label_0 = np.sum(y==0)
      count_label_1 = np.sum(y==1)
      n_class_0 = number_of_samples[0] + count_label_0
      n_class_1 = number_of_samples[1] + count_label_1
      X_resampled, y_resampled = SMOTE(
          sampling_strategy = {0:n_class_0, 1:n_class_1}).fit_resample(X, y)
      X_synthetic = X_resampled[len(X):]
      y_synthetic = y_resampled[len(y):]
      return X_synthetic, y_synthetic
  \<close>
  \<^verbatim>\<open>SMOTE\<close> is made without \<^verbatim>\<open>random_state\<close>; its random numbers are the argument
  \<open>draws\<close>, one list for each class.
\<close>

definition getitem :: "'a list \<Rightarrow> nat \<Rightarrow> error + 'a" where
  "getitem xs i = (if i < length xs then Inr (xs ! i) else Inl IndexError)"

definition make_synthetic_data_smote ::
  "(real \<Rightarrow> (nat \<times> real) list) \<Rightarrow> real list list \<Rightarrow> real list \<Rightarrow> int list \<Rightarrow>
     error + (real list list \<times> real list)" where
  "make_synthetic_data_smote draws X y number_of_samples =
     (let count_label_0 = int (count_list y 0);
          count_label_1 = int (count_list y 1)
      in bind (getitem number_of_samples 0) (\<lambda>n0.
         (let n_class_0 = n0 + count_label_0
          in bind (getitem number_of_samples 1) (\<lambda>n1.
             (let n_class_1 = n1 + count_label_1
              in bind (fit_resample draws [(0, n_class_0), (1, n_class_1)] X y)
                   (\<lambda>(X_resampled, y_resampled).
                      (let X_synthetic = drop (length X) X_resampled;
                           y_synthetic = drop (length y) y_resampled
                       in Inr (X_synthetic, y_synthetic))))))))"

subsection \<open>The lists of categorical columns\<close>

text \<open>
  \<^verbatim>\<open>
  categorical = ['gender_', 'work_type_', 'smoking_status_']
  one_hot_cols = []
  for col in categorical:
      one_hot_cols.append([x for x in X_col_names if x[0:len(col)] == col])
  \<close>
\<close>

definition categorical :: "string list" where
  "categorical = [''gender_'', ''work_type_'', ''smoking_status_'']"

definition one_hot_cols :: "string list \<Rightarrow> string list \<Rightarrow> string list list" where
  "one_hot_cols cats X_col_names =
     map (\<lambda>col. filter (\<lambda>x. take (length col) x = col) X_col_names) cats"

subsection \<open>The one-hot loop\<close>

text \<open>
  \<^verbatim>\<open>
  for one_hot_list in one_hot_cols:
      for index, row in synth_df.iterrows():
          x = row[one_hot_list]
          x_one_hot = make_one_hot(x)
          row[x_one_hot.index]= x_one_hot.values
  \<close>
  \<^verbatim>\<open>row[one_hot_list]\<close> makes a new Series of the listed labels (\<^verbatim>\<open>KeyError\<close> for a label
  the row lacks); \<^verbatim>\<open>row[labels] = values\<close> writes into the row object under each label.
\<close>

fun getitem_labels :: "series \<Rightarrow> string list \<Rightarrow> error + series" where
  "getitem_labels row [] = Inr []"
| "getitem_labels row (l # ls) =
     (case map_of row l of
        None \<Rightarrow> Inl KeyError
      | Some v \<Rightarrow> (case getitem_labels row ls of Inl e \<Rightarrow> Inl e | Inr x \<Rightarrow> Inr ((l, v) # x)))"

fun setitem_labels :: "series \<Rightarrow> series \<Rightarrow> error + series" where
  "setitem_labels [] row = Inr row"
| "setitem_labels ((l, v) # src) row =
     (if l \<in> set (map fst row)
      then setitem_labels src (map (\<lambda>(k, w). if k = l then (k, v) else (k, w)) row)
      else Inl KeyError)"

text \<open>The body of the inner loop, for the row object at address \<open>row\<close>.\<close>

definition one_hot_row :: "string list \<Rightarrow> addr \<Rightarrow> store \<Rightarrow> error + store" where
  "one_hot_row one_hot_list row s =
     (case getitem_labels (s ! row) one_hot_list of
        Inl e \<Rightarrow> Inl e
      | Inr xv \<Rightarrow>
          (case alloc xv s of (x, s1) \<Rightarrow>
             (case make_one_hot x s1 of
                Inl e \<Rightarrow> Inl e
              | Inr (x_one_hot, s2) \<Rightarrow>
                  (case setitem_labels (s2 ! x_one_hot) (s2 ! row) of
                     Inl e \<Rightarrow> Inl e
                   | Inr r \<Rightarrow> Inr (s2[row := r])))))"

fun one_hot_rows :: "string list \<Rightarrow> addr list \<Rightarrow> store \<Rightarrow> error + store" where
  "one_hot_rows one_hot_list [] s = Inr s"
| "one_hot_rows one_hot_list (row # rest) s =
     (case one_hot_row one_hot_list row s of
        Inl e \<Rightarrow> Inl e
      | Inr s' \<Rightarrow> one_hot_rows one_hot_list rest s')"

fun one_hot_groups :: "string list list \<Rightarrow> addr list \<Rightarrow> store \<Rightarrow> error + store" where
  "one_hot_groups [] rs s = Inr s"
| "one_hot_groups (one_hot_list # rest) rs s =
     (case one_hot_rows one_hot_list rs s of
        Inl e \<Rightarrow> Inl e
      | Inr s' \<Rightarrow> one_hot_groups rest rs s')"

text \<open>
  All cells of \<^verbatim>\<open>synth_df\<close> are float64, held in one block, and \<^verbatim>\<open>iterrows\<close> then
  yields each row as a Series on the frame's own memory: what the loop writes into
  \<^verbatim>\<open>row\<close> is written into \<^verbatim>\<open>synth_df\<close>. So the frame's rows are the objects at
  addresses \<open>0..<n\<close> of the store during the loop, every \<^verbatim>\<open>iterrows()\<close> call hands
  out these same addresses, and the frame after the loop is read back from them.
\<close>

definition iterrows :: "dataframe \<Rightarrow> store" where
  "iterrows df = map (zip (columns df)) (rows df)"

definition make_categorical :: "string list list \<Rightarrow> dataframe \<Rightarrow> error + dataframe" where
  "make_categorical groups df =
     (case one_hot_groups groups [0..<length (rows df)] (iterrows df) of
        Inl e \<Rightarrow> Inl e
      | Inr s \<Rightarrow> Inr (df\<lparr>rows := map (map snd) (take (length (rows df)) s)\<rparr>))"

text \<open>
  What the loop body does to one row, as a function of the row alone: \<open>overlay src row\<close>
  is \<open>row\<close> with the values of \<open>src\<close> under the labels of \<open>src\<close>, and \<open>fix_row g row\<close>
  overlays the one-hot vector of the group \<open>g\<close>.
\<close>

definition overlay :: "series \<Rightarrow> series \<Rightarrow> series" where
  "overlay src row = map (\<lambda>(k, w). (k, case map_of src k of Some v \<Rightarrow> v | None \<Rightarrow> w)) row"

definition fix_row :: "string list \<Rightarrow> series \<Rightarrow> series" where
  "fix_row g row =
     (case argmax (map (\<lambda>l. the (map_of row l)) g) of
        Inl e \<Rightarrow> row
      | Inr h \<Rightarrow> overlay (zip g (one_hot h (length g))) row)"

subsection \<open>Processing the raw synthetic data\<close>

text \<open>
  \<^verbatim>\<open>Series.round(0)\<close> is numpy's rounding: to the nearest whole number, and a value
  halfway between two whole numbers goes to the even one. \<^verbatim>\<open>np.clip(x, lo, hi)\<close>
  is \<open>min (max x lo) hi\<close>.
\<close>

definition np_round :: "real \<Rightarrow> real" where
  "np_round x =
     (let f = \<lfloor>x\<rfloor>; d = x - of_int f
      in if d < 1 / 2 then of_int f
         else if 1 / 2 < d then of_int (f + 1)
         else if even f then of_int f else of_int (f + 1))"

definition clip :: "real \<Rightarrow> real \<Rightarrow> real \<Rightarrow> real" where
  "clip x lo hi = min (max x lo) hi"

text \<open>
  \<^verbatim>\<open>
  for col in integer_cols:
      synth_df[col] = synth_df[col].round(0)
  for col in binary_cols:
      synth_df[col] = np.clip(synth_df[col],0,1).round(0)
  \<close>
\<close>

fun round_integer_cols :: "string list \<Rightarrow> dataframe \<Rightarrow> error + dataframe" where
  "round_integer_cols [] synth_df = Inr synth_df"
| "round_integer_cols (col # rest) synth_df =
     bind (getitem_col synth_df col) (\<lambda>v.
     bind (setitem_col synth_df col (map np_round v)) (\<lambda>synth_df'.
     round_integer_cols rest synth_df'))"

fun round_binary_cols :: "string list \<Rightarrow> dataframe \<Rightarrow> error + dataframe" where
  "round_binary_cols [] synth_df = Inr synth_df"
| "round_binary_cols (col # rest) synth_df =
     bind (getitem_col synth_df col) (\<lambda>v.
     bind (setitem_col synth_df col (map (\<lambda>x. np_round (clip x 0 1)) v)) (\<lambda>synth_df'.
     round_binary_cols rest synth_df'))"

text \<open>
  The cell that processes the raw synthetic data: \<^verbatim>\<open>synth_df\<close> starts as a copy of
  \<^verbatim>\<open>X_synthetic\<close> under the names \<^verbatim>\<open>X_col_names\<close>, which are its own column names
  (\<^verbatim>\<open>X_col_names = list(X_train)\<close>, and SMOTE returns the columns of \<^verbatim>\<open>X_train\<close>).
  \<^verbatim>\<open>
  synth_df = pd.DataFrame()
  synth_df=pd.concat([synth_df, pd.DataFrame(X_synthetic, columns=X_col_names)], axis=1)
  [the one-hot loop, the integer columns, the binary columns]
  y_list = list(y_synthetic)
  synth_df[y_label] = y_list
  synth_df = synth_df.sample(frac=1.0)
  \<close>
\<close>

definition integer_cols :: "string list" where
  "integer_cols = [''age'']"

definition binary_cols :: "string list" where
  "binary_cols = [''hypertension'', ''heart_disease'', ''ever_married'', ''residence_type_rural'']"

definition y_label :: string where
  "y_label = ''stroke''"

definition process_raw_synthetic ::
  "nat list \<Rightarrow> string list \<Rightarrow> string list \<Rightarrow> string list \<Rightarrow> string \<Rightarrow>
     dataframe \<Rightarrow> real list \<Rightarrow> error + dataframe" where
  "process_raw_synthetic draw cats int_cols bin_cols label X_synthetic y_synthetic =
     (let X_col_names = columns X_synthetic;
          synth_df = X_synthetic
      in bind (make_categorical (one_hot_cols cats X_col_names) synth_df) (\<lambda>synth_df.
         bind (round_integer_cols int_cols synth_df) (\<lambda>synth_df.
         bind (round_binary_cols bin_cols synth_df) (\<lambda>synth_df.
         bind (setitem_col synth_df label y_synthetic) (\<lambda>synth_df.
         sample_frac1 draw synth_df)))))"

subsection \<open>Nearest real point of each synthetic point\<close>

text \<open>
  \<^verbatim>\<open>NearestNeighbors(n_neighbors=1).fit(X_real_std).kneighbors(X_synth_std)\<close>: for
  every query point the Euclidean distance to the closest fitted point and the
  position of that point (the first of the closest ones).
\<close>

definition nearest :: "real list list \<Rightarrow> real list \<Rightarrow> error + (real \<times> nat)" where
  "nearest fitted q =
     bind (argmax (map (\<lambda>p. - euclidean q p) fitted)) (\<lambda>i. Inr (euclidean q (fitted ! i), i))"

fun kneighbors :: "real list list \<Rightarrow> real list list \<Rightarrow> error + (real list \<times> nat list)" where
  "kneighbors fitted [] = Inr ([], [])"
| "kneighbors fitted (q # qs) =
     bind (nearest fitted q) (\<lambda>(d, i).
     bind (kneighbors fitted qs) (\<lambda>(dists, idxs). Inr (d # dists, i # idxs)))"

text \<open>
  \<^verbatim>\<open>
  X_train_std, X_synth_std = standardise_data(X_train, X_synthetic)
  X_real_std = np.concatenate([X_train_std, X_test_std], axis=0)
  nn = NearestNeighbors(n_neighbors=1, algorithm='auto').fit(X_real_std)
  dists, idxs = nn.kneighbors(X_synth_std)
  synth_df['distance_to_closest_real'] = list(dists.flatten())
  synth_df['closest_X_real_row_index'] = list(idxs.flatten())
  \<close>
  The distances are those of the rows of \<^verbatim>\<open>X_synthetic\<close>, in the order of
  \<^verbatim>\<open>X_synthetic\<close>; they are assigned as lists, by position, to \<^verbatim>\<open>synth_df\<close>, which
  the cell before has shuffled. \<^verbatim>\<open>X_test_std\<close> is the one of the notebook's first
  \<^verbatim>\<open>standardise_data(X_train, X_test)\<close>.
\<close>

definition find_nearest ::
  "real list list \<Rightarrow> real list list \<Rightarrow> dataframe \<Rightarrow> dataframe \<Rightarrow> error + dataframe" where
  "find_nearest X_train X_test_std X_synthetic synth_df =
     bind (standardise_data X_train (rows X_synthetic)) (\<lambda>(X_train_std, X_synth_std).
     (let X_real_std = X_train_std @ X_test_std
      in bind (kneighbors X_real_std X_synth_std) (\<lambda>(dists, idxs).
         bind (setitem_col synth_df ''distance_to_closest_real'' dists) (\<lambda>synth_df.
         setitem_col synth_df ''closest_X_real_row_index'' (map real idxs)))))"

subsection \<open>Removing identical and closest points\<close>

text \<open>
  \<^verbatim>\<open>
  identical = synth_df['distance_to_closest_real'] < 0.001
  mask = identical == False
  synth_df = synth_df[mask]
  \<close>
\<close>

definition remove_identical :: "dataframe \<Rightarrow> error + dataframe" where
  "remove_identical synth_df =
     bind (getitem_col synth_df ''distance_to_closest_real'') (\<lambda>d.
     (let identical = map (\<lambda>x. x < 0.001) d;
          not_identical = map (\<lambda>b. b = False) identical
      in Inr (boolean_index synth_df not_identical)))"

text \<open>
  \<^verbatim>\<open>
  proportion_to_remove = 0.1
  synth_by_distance = synth_df.sort_values('distance_to_closest_real', ascending=False)
  number_to_keep = int(len(synth_by_distance) * (1 - proportion_to_remove))
  synth_by_distance = synth_by_distance.head(number_to_keep)
  synth_df = synth_by_distance.sample(frac=1)
  \<close>
  \<^verbatim>\<open>int\<close> cuts off the fraction of a product that is never negative: the floor.
\<close>

definition proportion_to_remove :: real where
  "proportion_to_remove = 0.1"

definition remove_closest :: "nat list \<Rightarrow> dataframe \<Rightarrow> error + dataframe" where
  "remove_closest draw synth_df =
     bind (sort_values_desc synth_df ''distance_to_closest_real'') (\<lambda>synth_by_distance.
     (let number_to_keep =
            nat \<lfloor>real (length (rows synth_by_distance)) * (1 - proportion_to_remove)\<rfloor>;
          synth_by_distance = head number_to_keep synth_by_distance
      in sample_frac1 draw synth_by_distance))"

text \<open>
  The novelty filter: the three cells from the nearest real points to the removal
  of the closest tenth, one after the other.
\<close>

definition novelty_filter ::
  "nat list \<Rightarrow> real list list \<Rightarrow> real list list \<Rightarrow> dataframe \<Rightarrow> dataframe \<Rightarrow> error + dataframe" where
  "novelty_filter draw X_train X_test_std X_synthetic synth_df =
     bind (find_nearest X_train X_test_std X_synthetic synth_df) (\<lambda>synth_df.
     bind (remove_identical synth_df) (\<lambda>synth_df.
     remove_closest draw synth_df))"

subsection \<open>Sampling to the size and balance of the original data\<close>

text \<open>
  \<^verbatim>\<open>
  mask = synth_df['stroke'] == 1
  synth_positive_stroke = synth_df[mask].sample(number_positive_stroke)
  mask = synth_df['stroke'] == 0
  synth_negative_stroke = synth_df[mask].sample(number_negative_stroke)
  synth_df = pd.concat([synth_positive_stroke, synth_negative_stroke], axis=0)
  synth_df = synth_df.sample(frac=1.0, )
  \<close>
\<close>

definition rebalance ::
  "nat list \<Rightarrow> nat list \<Rightarrow> nat list \<Rightarrow> string \<Rightarrow> nat \<Rightarrow> nat \<Rightarrow> dataframe \<Rightarrow> error + dataframe" where
  "rebalance draw1 draw0 draw label number_positive_stroke number_negative_stroke synth_df =
     bind (getitem_col synth_df label) (\<lambda>y.
     bind (sample draw1 number_positive_stroke (boolean_index synth_df (map (\<lambda>v. v = 1) y)))
       (\<lambda>synth_positive_stroke.
     bind (getitem_col synth_df label) (\<lambda>y.
     bind (sample draw0 number_negative_stroke (boolean_index synth_df (map (\<lambda>v. v = 0) y)))
       (\<lambda>synth_negative_stroke.
     sample_frac1 draw (concat_rows synth_positive_stroke synth_negative_stroke)))))"

subsection \<open>The notebook from the raw synthetic data to its last frame\<close>

text \<open>
  The cells in the order of the notebook, with the five draws of its
  \<^verbatim>\<open>sample\<close> calls: \<^verbatim>\<open>X_test_std\<close> is set by the first
  \<^verbatim>\<open>standardise_data(X_train, X_test)\<close>, and \<^verbatim>\<open>synth_df\<close> is handed from cell to cell.
\<close>

record draws =
  shuffle_processed :: "nat list"
  shuffle_kept :: "nat list"
  pick_positive :: "nat list"
  pick_negative :: "nat list"
  shuffle_final :: "nat list"

definition notebook ::
  "draws \<Rightarrow> string list \<Rightarrow> string list \<Rightarrow> string list \<Rightarrow> string \<Rightarrow>
     real list list \<Rightarrow> real list list \<Rightarrow> dataframe \<Rightarrow> real list \<Rightarrow> nat \<Rightarrow> nat \<Rightarrow>
     error + dataframe" where
  "notebook dr cats int_cols bin_cols label X_train X_test X_synthetic y_synthetic
      number_positive_stroke number_negative_stroke =
     bind (standardise_data X_train X_test) (\<lambda>(X_train_std, X_test_std).
     bind (process_raw_synthetic (shuffle_processed dr) cats int_cols bin_cols label
             X_synthetic y_synthetic) (\<lambda>synth_df.
     bind (novelty_filter (shuffle_kept dr) X_train X_test_std X_synthetic synth_df) (\<lambda>synth_df.
     rebalance (pick_positive dr) (pick_negative dr) (shuffle_final dr) label
       number_positive_stroke number_negative_stroke synth_df)))"

subsection \<open>Notions used in the statements\<close>

text \<open>
  The distances to the nearest real point that the notebook's own computation
  gives for a list of feature vectors: standardised with the scaler fitted on
  \<^verbatim>\<open>X_train\<close>, and searched in the standardised training and test rows.
\<close>

definition distances_to_real ::
  "real list list \<Rightarrow> real list list \<Rightarrow> real list list \<Rightarrow> error + real list" where
  "distances_to_real X_train X_test_std X =
     bind (standardise_data X_train X) (\<lambda>(X_train_std, X_std).
     bind (kneighbors (X_train_std @ X_test_std) X_std) (\<lambda>(dists, idxs). Inr dists))"

text \<open>Rounding half up, the rule the specification asks for.\<close>

definition round_half_up :: "real \<Rightarrow> real" where
  "round_half_up x = of_int \<lfloor>x + 1 / 2\<rfloor>"

text \<open>Every row has one value per column.\<close>

definition same_shape :: "dataframe \<Rightarrow> bool" where
  "same_shape df \<longleftrightarrow> (\<forall>r \<in> set (rows df). length r = length (columns df))"

text \<open>The rows of one class: those whose value in column \<open>k\<close> is \<open>v\<close>.\<close>

definition class_pool :: "nat \<Rightarrow> real \<Rightarrow> dataframe \<Rightarrow> dataframe" where
  "class_pool k v df = df\<lparr>rows := filter (\<lambda>r. r ! k = v) (rows df)\<rparr>"

text \<open>
  The rows of \<^verbatim>\<open>X\<close> labelled \<open>c\<close>, which is \<^verbatim>\<open>X_class\<close> in the loop of the
  over-sampler, and the new samples the loop makes of the class.
\<close>

definition class_rows :: "real list list \<Rightarrow> real list \<Rightarrow> real \<Rightarrow> real list list" where
  "class_rows X y c = map fst (filter (\<lambda>(x, l). l = c) (zip X y))"

definition new_samples ::
  "(real \<Rightarrow> (nat \<times> real) list) \<Rightarrow> real list list \<Rightarrow> real list \<Rightarrow> real \<Rightarrow> int \<Rightarrow> real list list" where
  "new_samples draws X y c n =
     (if n = 0 then []
      else make_samples (class_rows X y c)
             (map (\<lambda>q. tl (take (k_neighbors + 1)
                              (sort_key (\<lambda>i. euclidean q (class_rows X y c ! i))
                                 [0..<length (class_rows X y c)])))
                  (class_rows X y c))
             (nat n) (draws c))"

text \<open>
  \<open>can_oversample y n0 n1\<close>: the requests are not negative, both classes occur,
  and a class of which samples are requested has more points than the 5
  neighbours the over-sampler looks for. \<open>between_rows P r\<close>: the vector \<open>r\<close> lies
  on the segment from one row of \<open>P\<close> towards another, at a step in \<open>[0, 1)\<close>.
\<close>

definition can_oversample :: "real list \<Rightarrow> int \<Rightarrow> int \<Rightarrow> bool" where
  "can_oversample y n0 n1 \<longleftrightarrow>
     0 \<le> n0 \<and> 0 \<le> n1 \<and> 0 \<in> set y \<and> 1 \<in> set y \<and>
     (0 < n0 \<longrightarrow> k_neighbors < count_list y 0) \<and>
     (0 < n1 \<longrightarrow> k_neighbors < count_list y 1)"

definition between_rows :: "real list list \<Rightarrow> real list \<Rightarrow> bool" where
  "between_rows P r \<longleftrightarrow>
     (\<exists>p \<in> set P. \<exists>q \<in> set P. \<exists>step. 0 \<le> step \<and> step < 1 \<and> r = interpolate p q step)"

subsection \<open>Example inputs\<close>

definition df0 :: dataframe where
  "df0 = \<lparr>columns = [''age'', ''gender_f'', ''gender_m'', ''work_type_a'',
                     ''smoking_status_x'', ''smoking_status_y''],
          rows = [[30.5, 0.3, 0.7, 1, 0.5, 0.5], [41, 1, 0, 0.2, 0.1, 0.9]]\<rparr>"

definition df_age :: dataframe where
  "df_age = \<lparr>columns = [''age'', ''bmi''], rows = [[2.5, 20.3], [3.5, 21]]\<rparr>"

definition df_pool :: dataframe where
  "df_pool = \<lparr>columns = [''age'', ''stroke''], rows = [[31, 0], [62, 1], [45, 0], [70, 1]]\<rparr>"

text \<open>
  A small data set with the columns the notebook names: two training records,
  one test record, and three synthetic points on the segment between the two
  training records, the first of them equal to the first training record.
\<close>

definition stroke_columns :: "string list" where
  "stroke_columns = [''age'', ''hypertension'', ''heart_disease'', ''ever_married'',
     ''residence_type_rural'', ''gender_female'', ''work_type_private'', ''smoking_status_smokes'']"

definition X_train_ex :: "real list list" where
  "X_train_ex = [[40, 0, 0, 1, 0, 1, 1, 1], [42, 0, 0, 1, 0, 1, 1, 1]]"

definition X_test_ex :: "real list list" where
  "X_test_ex = [[45, 0, 0, 1, 0, 1, 1, 1]]"

definition X_test_std_ex :: "real list list" where
  "X_test_std_ex = [[4, 0, 0, 0, 0, 0, 0, 0]]"

definition X_synthetic_ex :: dataframe where
  "X_synthetic_ex = \<lparr>columns = stroke_columns,
     rows = [[40, 0, 0, 1, 0, 1, 1, 1], [40.5, 0, 0, 1, 0, 1, 1, 1], [41, 0, 0, 1, 0, 1, 1, 1]]\<rparr>"

definition synth_df_ex :: dataframe where
  "synth_df_ex = \<lparr>columns = stroke_columns @ [''stroke''],
          rows = [[40, 0, 0, 1, 0, 1, 1, 1, 1], [41, 0, 0, 1, 0, 1, 1, 1, 1],
                  [40, 0, 0, 1, 0, 1, 1, 1, 1]]\<rparr>"

definition annotated_ex :: dataframe where
  "annotated_ex = \<lparr>columns = stroke_columns @
                      [''stroke'', ''distance_to_closest_real'', ''closest_X_real_row_index''],
          rows = [[40, 0, 0, 1, 0, 1, 1, 1, 1, 0, 0], [41, 0, 0, 1, 0, 1, 1, 1, 1, 1 / 2, 0],
                  [40, 0, 0, 1, 0, 1, 1, 1, 1, 1, 0]]\<rparr>"

definition survivors_ex :: dataframe where
  "survivors_ex = \<lparr>columns = stroke_columns @
                      [''stroke'', ''distance_to_closest_real'', ''closest_X_real_row_index''],
          rows = [[40, 0, 0, 1, 0, 1, 1, 1, 1, 1, 0]]\<rparr>"

text \<open>The draws of one run on the small data set.\<close>

definition draws_ex :: draws where
  "draws_ex = \<lparr>shuffle_processed = [1, 2, 0], shuffle_kept = [0], pick_positive = [0],
               pick_negative = [], shuffle_final = [0]\<rparr>"

text \<open>
  Synthetic points that all equal training records: one point, and two points
  (the processed frame of the two in shuffled order).
\<close>

definition X_synthetic_one :: dataframe where
  "X_synthetic_one = \<lparr>columns = stroke_columns, rows = [[40, 0, 0, 1, 0, 1, 1, 1]]\<rparr>"

definition synth_df_one :: dataframe where
  "synth_df_one = \<lparr>columns = stroke_columns @ [''stroke''],
                   rows = [[40, 0, 0, 1, 0, 1, 1, 1, 1]]\<rparr>"

definition annotated_one :: dataframe where
  "annotated_one = \<lparr>columns = stroke_columns @
                      [''stroke'', ''distance_to_closest_real'', ''closest_X_real_row_index''],
                   rows = [[40, 0, 0, 1, 0, 1, 1, 1, 1, 0, 0]]\<rparr>"

definition X_synthetic_two :: dataframe where
  "X_synthetic_two = \<lparr>columns = stroke_columns,
     rows = [[40, 0, 0, 1, 0, 1, 1, 1], [42, 0, 0, 1, 0, 1, 1, 1]]\<rparr>"

definition synth_df_two :: dataframe where
  "synth_df_two = \<lparr>columns = stroke_columns @ [''stroke''],
     rows = [[42, 0, 0, 1, 0, 1, 1, 1, 1], [40, 0, 0, 1, 0, 1, 1, 1, 1]]\<rparr>"

text \<open>
  Twelve points of one feature, six of each class, with the draws of one run of
  the over-sampler: one sample of class 0 and two of class 1.
\<close>

definition X_smote :: "real list list" where
  "X_smote = [[1], [2], [3], [4], [5], [6], [10], [11], [13], [14], [16], [20]]"

definition y_smote :: "real list" where
  "y_smote = [0, 0, 0, 0, 0, 0, 1, 1, 1, 1, 1, 1]"

definition draws_smote :: "real \<Rightarrow> (nat \<times> real) list" where
  "draws_smote c = (if c = 0 then [(7, 1 / 4)] else [(0, 1 / 2), (29, 3 / 4)])"

section \<open>Properties\<close>

subsection \<open>\<^verbatim>\<open>np.argmax\<close> finds the first maximum\<close>

lemma argmax_scan_spec:
  assumes "best < i" "i = length pre" "pre ! best = m"
    and "\<forall>k < length pre. pre ! k \<le> m" "\<forall>k < best. pre ! k < m"
  shows "first_max (pre @ vs) (argmax_scan best m i vs)"
  using assms
proof (induction vs arbitrary: best m i pre)
  case Nil
  then show ?case by (simp add: first_max_def)
next
  case (Cons v vs)
  show ?case
  proof (cases "m < v")
    case True
    have "first_max ((pre @ [v]) @ vs) (argmax_scan i v (Suc i) vs)"
    proof (rule Cons.IH)
      show "i < Suc i" by simp
      show "Suc i = length (pre @ [v])" using Cons.prems by simp
      show "(pre @ [v]) ! i = v" using Cons.prems by simp
      show "\<forall>k < length (pre @ [v]). (pre @ [v]) ! k \<le> v"
        using Cons.prems True by (auto simp: nth_append less_Suc_eq intro: order_trans less_imp_le)
      show "\<forall>k < i. (pre @ [v]) ! k < v"
        using Cons.prems True by (auto simp: nth_append intro: le_less_trans)
    qed
    with True show ?thesis by simp
  next
    case False
    have "first_max ((pre @ [v]) @ vs) (argmax_scan best m (Suc i) vs)"
    proof (rule Cons.IH)
      show "best < Suc i" using Cons.prems by simp
      show "Suc i = length (pre @ [v])" using Cons.prems by simp
      show "(pre @ [v]) ! best = m" using Cons.prems by (simp add: nth_append)
      show "\<forall>k < length (pre @ [v]). (pre @ [v]) ! k \<le> m"
        using Cons.prems False by (auto simp: nth_append less_Suc_eq)
      show "\<forall>k < best. (pre @ [v]) ! k < m"
        using Cons.prems by (auto simp: nth_append)
    qed
    with False show ?thesis by simp
  qed
qed

lemma argmax_first_max:
  assumes "vs \<noteq> []"
  shows "\<exists>h. argmax vs = Inr h \<and> first_max vs h"
proof -
  from assms obtain v ws where vs: "vs = v # ws" by (cases vs) auto
  have "first_max ([v] @ ws) (argmax_scan 0 v 1 ws)"
    by (rule argmax_scan_spec) auto
  then show ?thesis by (simp add: vs)
qed

lemma first_max_unique: "first_max vs h \<Longrightarrow> first_max vs h' \<Longrightarrow> h = h'"
  unfolding first_max_def by (metis linorder_neqE_nat not_le)

lemma length_one_hot [simp]: "length (one_hot h n) = n"
  by (simp add: one_hot_def)

lemma nth_one_hot [simp]: "k < n \<Longrightarrow> one_hot h n ! k = (if k = h then 1 else 0)"
  by (simp add: one_hot_def)

lemma make_one_hot_values:
  assumes "h < length x"
  shows "(map (\<lambda>(l, v). (l, v * 0)) x)[h := (fst (map (\<lambda>(l, v). (l, v * 0)) x ! h), 1)]
           = zip (map fst x) (one_hot h (length x))"
  using assms by (auto simp: list_eq_iff_nth_eq nth_list_update split: prod.splits)

lemma make_one_hot_result:
  assumes "x < length s" "argmax (map snd (s ! x)) = Inr h"
  shows "make_one_hot x s =
           Inr (x, s[x := zip (map fst (s ! x)) (one_hot h (length (s ! x)))])"
proof -
  have "s ! x \<noteq> []" using assms(2) by auto
  then have "first_max (map snd (s ! x)) h"
    using argmax_first_max [of "map snd (s ! x)"] assms(2) by auto
  then have hl: "h < length (s ! x)" by (simp add: first_max_def)
  show ?thesis
    using assms make_one_hot_values [OF hl]
    by (simp add: make_one_hot_def imul_def setitem_pos_def)
qed

subsection \<open>\<^verbatim>\<open>make_one_hot\<close> works on its argument\<close>

text \<open>
  C10. \<^verbatim>\<open>make_one_hot\<close> changes its argument in place. Called on a reference \<open>x\<close> to a
  non-empty numeric Series, it returns the same reference \<open>x\<close>; afterwards the
  object at \<open>x\<close> keeps its labels and holds 1 at the first position that held the
  largest value and 0 everywhere else, so the values the caller had there are gone.
  No other object of the store changes, and no new object is made. On an empty
  Series \<^verbatim>\<open>np.argmax\<close> raises \<^verbatim>\<open>ValueError\<close> before anything is written.
\<close>

theorem make_one_hot_in_place:
  assumes "x < length s"
  shows "(s ! x = [] \<longrightarrow> make_one_hot x s = Inl ValueError) \<and>
         (s ! x \<noteq> [] \<longrightarrow>
            (\<exists>h. first_max (map snd (s ! x)) h \<and>
                 make_one_hot x s =
                   Inr (x, s[x := zip (map fst (s ! x)) (one_hot h (length (s ! x)))])))"
proof (intro conjI impI)
  assume "s ! x = []"
  then show "make_one_hot x s = Inl ValueError"
    by (simp add: make_one_hot_def)
next
  assume ne: "s ! x \<noteq> []"
  then obtain h where h: "argmax (map snd (s ! x)) = Inr h" "first_max (map snd (s ! x)) h"
    using argmax_first_max [of "map snd (s ! x)"] by auto
  have "make_one_hot x s =
          Inr (x, s[x := zip (map fst (s ! x)) (one_hot h (length (s ! x)))])"
    using assms h(1) by (rule make_one_hot_result)
  with h(2) show "\<exists>h. first_max (map snd (s ! x)) h \<and>
                 make_one_hot x s =
                   Inr (x, s[x := zip (map fst (s ! x)) (one_hot h (length (s ! x)))])"
    by blast
qed

theorem make_one_hot_in_place_witness:
  "make_one_hot 1 [[(''p'', 5)], [(''a'', 0.2), (''b'', 0.7), (''c'', 0.7)]] =
     Inr (1, [[(''p'', 5)], [(''a'', 0), (''b'', 1), (''c'', 0)]])"
proof -
  let ?s = "[[(''p'', 5)], [(''a'', 0.2), (''b'', 0.7), (''c'', 0.7 :: real)]]"
  have len: "(1::nat) < length ?s" by simp
  have ne: "?s ! 1 \<noteq> []" by simp
  from make_one_hot_in_place [OF len] ne obtain h where
    h: "first_max (map snd (?s ! 1)) h"
       "make_one_hot 1 ?s = Inr (1, ?s[1 := zip (map fst (?s ! 1)) (one_hot h (length (?s ! 1)))])"
    by blast
  have "first_max (map snd (?s ! 1)) 1"
    by (simp add: first_max_def less_Suc_eq numeral_3_eq_3)
  with h(1) have "h = 1" by (rule first_max_unique)
  with h(2) show ?thesis by (simp add: one_hot_def upt_rec numeral_3_eq_3)
qed

subsection \<open>The one-hot loop\<close>

lemma getitem_labels_ok:
  "set g \<subseteq> set (map fst row) \<Longrightarrow>
     getitem_labels row g = Inr (map (\<lambda>l. (l, the (map_of row l))) g)"
proof (induction g)
  case Nil
  then show ?case by simp
next
  case (Cons l ls)
  then obtain v where "map_of row l = Some v"
    by (cases "map_of row l") (auto simp: map_of_eq_None_iff)
  with Cons show ?case by simp
qed

lemma map_fst_overlay [simp]: "map fst (overlay src row) = map fst row"
  by (induction row) (auto simp: overlay_def)

lemma length_overlay [simp]: "length (overlay src row) = length row"
  by (simp add: overlay_def)

lemma map_of_overlay:
  "map_of (overlay src row) k =
     (case map_of row k of None \<Rightarrow> None
      | Some w \<Rightarrow> Some (case map_of src k of Some v \<Rightarrow> v | None \<Rightarrow> w))"
  by (induction row) (auto simp: overlay_def split: option.splits)

lemma overlay_Nil [simp]: "overlay [] row = row"
  by (induction row) (auto simp: overlay_def)

lemma overlay_Cons:
  assumes "l \<notin> set (map fst src)"
  shows "overlay src (map (\<lambda>(k, w). if k = l then (k, v) else (k, w)) row)
           = overlay ((l, v) # src) row"
proof -
  have "map_of src l = None" using assms by (simp add: map_of_eq_None_iff)
  then show ?thesis by (induction row) (auto simp: overlay_def)
qed

lemma setitem_labels_ok:
  "distinct (map fst src) \<Longrightarrow> set (map fst src) \<subseteq> set (map fst row) \<Longrightarrow>
     setitem_labels src row = Inr (overlay src row)"
proof (induction src arbitrary: row)
  case Nil
  then show ?case by simp
next
  case (Cons p src)
  obtain l v where p: "p = (l, v)" by (cases p)
  let ?row = "map (\<lambda>(k, w). if k = l then (k, v) else (k, w)) row"
  have fst: "map fst ?row = map fst row" by (induction row) auto
  have sub: "set (map fst src) \<subseteq> set (map fst ?row)"
    unfolding fst using Cons.prems by (auto simp: p)
  have "setitem_labels src ?row = Inr (overlay src ?row)"
    using Cons.prems sub by (intro Cons.IH) (simp_all add: p)
  moreover have "overlay src ?row = overlay ((l, v) # src) row"
    using Cons.prems by (intro overlay_Cons) (auto simp: p)
  moreover have "l \<in> set (map fst row)" using Cons.prems by (auto simp: p)
  ultimately show ?case by (simp add: p)
qed

lemma one_hot_row_ok:
  assumes "r < length s" "set g \<subseteq> set (map fst (s ! r))" "distinct g" "g \<noteq> []"
  shows "\<exists>x. one_hot_row g r s = Inr ((s @ [x])[r := fix_row g (s ! r)])"
proof -
  let ?vs = "map (\<lambda>l. the (map_of (s ! r) l)) g"
  let ?xv = "map (\<lambda>l. (l, the (map_of (s ! r) l))) g"
  have get: "getitem_labels (s ! r) g = Inr ?xv"
    using assms(2) by (rule getitem_labels_ok)
  have snd: "map snd ?xv = ?vs" by (simp add: comp_def)
  have fstx: "map fst ?xv = g" by (simp add: comp_def)
  obtain h where h: "argmax ?vs = Inr h" "first_max ?vs h"
    using argmax_first_max [of ?vs] assms(4) by auto
  let ?s1 = "s @ [?xv]"
  let ?x = "zip g (one_hot h (length g))"
  have len: "length s < length ?s1" by simp
  have at: "?s1 ! length s = ?xv" by simp
  have ne: "?s1 ! length s \<noteq> []" using assms(4) by simp
  have "argmax (map snd (?s1 ! length s)) = Inr h" using h(1) by (simp add: comp_def)
  then have "make_one_hot (length s) ?s1 =
           Inr (length s, ?s1[length s := zip (map fst (?s1 ! length s))
                                          (one_hot h (length (?s1 ! length s)))])"
    by (rule make_one_hot_result [OF len])
  then have mk: "make_one_hot (length s) ?s1 = Inr (length s, s @ [?x])"
    by (simp add: comp_def)
  have set: "setitem_labels ?x (s ! r) = Inr (overlay ?x (s ! r))"
    using assms by (intro setitem_labels_ok) auto
  have "one_hot_row g r s = Inr ((s @ [?x])[r := overlay ?x (s ! r)])"
    using assms(1) get mk set
    by (simp add: one_hot_row_def alloc_def nth_append)
  moreover have "fix_row g (s ! r) = overlay ?x (s ! r)"
    using h(1) by (simp add: fix_row_def)
  ultimately show ?thesis by auto
qed

lemma map_fst_fix_row [simp]: "map fst (fix_row g row) = map fst row"
  by (simp add: fix_row_def split: sum.splits)

lemma one_hot_rows_ok:
  assumes "distinct rs" "\<forall>r\<in>set rs. r < length s \<and> set g \<subseteq> set (map fst (s ! r))"
    and "distinct g" "g \<noteq> []"
  shows "\<exists>s'. one_hot_rows g rs s = Inr s' \<and> length s \<le> length s' \<and>
           (\<forall>a < length s. s' ! a = (if a \<in> set rs then fix_row g (s ! a) else s ! a))"
  using assms(1,2)
proof (induction rs arbitrary: s)
  case Nil
  then show ?case by simp
next
  case (Cons r rs)
  from Cons.prems have r: "r < length s" "set g \<subseteq> set (map fst (s ! r))" by auto
  from one_hot_row_ok [OF r assms(3,4)] obtain x where
    row: "one_hot_row g r s = Inr ((s @ [x])[r := fix_row g (s ! r)])" by blast
  let ?s1 = "(s @ [x])[r := fix_row g (s ! r)]"
  have same: "?s1 ! a = s ! a" if "a < length s" "a \<noteq> r" for a
    using that by (simp add: nth_append)
  have atr: "?s1 ! r = fix_row g (s ! r)" using r(1) by simp
  have "\<forall>r'\<in>set rs. r' < length ?s1 \<and> set g \<subseteq> set (map fst (?s1 ! r'))"
  proof
    fix r' assume r': "r' \<in> set rs"
    then have "r' < length s" "r' \<noteq> r" "set g \<subseteq> set (map fst (s ! r'))"
      using Cons.prems by auto
    then show "r' < length ?s1 \<and> set g \<subseteq> set (map fst (?s1 ! r'))"
      using same [of r'] by simp
  qed
  moreover have "distinct rs" using Cons.prems by simp
  ultimately obtain s' where s': "one_hot_rows g rs ?s1 = Inr s'" "length ?s1 \<le> length s'"
      "\<forall>a < length ?s1. s' ! a = (if a \<in> set rs then fix_row g (?s1 ! a) else ?s1 ! a)"
    using Cons.IH [of ?s1] by blast
  have "\<forall>a < length s. s' ! a = (if a \<in> set (r # rs) then fix_row g (s ! a) else s ! a)"
  proof (intro allI impI)
    fix a assume a: "a < length s"
    then have a1: "a < length ?s1" by simp
    show "s' ! a = (if a \<in> set (r # rs) then fix_row g (s ! a) else s ! a)"
    proof (cases "a = r")
      case True
      then have "a \<notin> set rs" using Cons.prems by simp
      then show ?thesis using s'(3) a1 atr True by simp
    next
      case False
      then show ?thesis using s'(3) a1 same [OF a False] by simp
    qed
  qed
  moreover have "length s \<le> length s'" using s'(2) by simp
  ultimately show ?case using row s'(1) by simp
qed

lemma map_fst_fold_fix_row [simp]: "map fst (fold fix_row gs row) = map fst row"
  by (induction gs arbitrary: row) auto

lemma one_hot_groups_ok:
  assumes "distinct rs"
    and "\<forall>r\<in>set rs. r < length s \<and> set (concat gs) \<subseteq> set (map fst (s ! r))"
    and "\<forall>g\<in>set gs. distinct g \<and> g \<noteq> []"
  shows "\<exists>s'. one_hot_groups gs rs s = Inr s' \<and> length s \<le> length s' \<and>
           (\<forall>a < length s. s' ! a = (if a \<in> set rs then fold fix_row gs (s ! a) else s ! a))"
  using assms(2,3)
proof (induction gs arbitrary: s)
  case Nil
  then show ?case by simp
next
  case (Cons g gs)
  have "\<forall>r\<in>set rs. r < length s \<and> set g \<subseteq> set (map fst (s ! r))"
    using Cons.prems(1) by auto
  moreover have "distinct g" "g \<noteq> []" using Cons.prems(2) by auto
  ultimately obtain s1 where s1: "one_hot_rows g rs s = Inr s1" "length s \<le> length s1"
      "\<forall>a < length s. s1 ! a = (if a \<in> set rs then fix_row g (s ! a) else s ! a)"
    using one_hot_rows_ok [OF assms(1), of s g] by blast
  have "\<forall>r\<in>set rs. r < length s1 \<and> set (concat gs) \<subseteq> set (map fst (s1 ! r))"
  proof
    fix r assume r: "r \<in> set rs"
    then have rl: "r < length s" and sub: "set (concat gs) \<subseteq> set (map fst (s ! r))"
      using Cons.prems(1) by auto
    have "s1 ! r = fix_row g (s ! r)" using s1(3) rl r by simp
    then show "r < length s1 \<and> set (concat gs) \<subseteq> set (map fst (s1 ! r))"
      using rl s1(2) sub by simp
  qed
  moreover have "\<forall>g\<in>set gs. distinct g \<and> g \<noteq> []" using Cons.prems(2) by simp
  ultimately obtain s' where s': "one_hot_groups gs rs s1 = Inr s'" "length s1 \<le> length s'"
      "\<forall>a < length s1. s' ! a = (if a \<in> set rs then fold fix_row gs (s1 ! a) else s1 ! a)"
    using Cons.IH [of s1] by blast
  have "\<forall>a < length s. s' ! a = (if a \<in> set rs then fold fix_row (g # gs) (s ! a) else s ! a)"
  proof (intro allI impI)
    fix a assume a: "a < length s"
    then have "a < length s1" using s1(2) by simp
    then show "s' ! a = (if a \<in> set rs then fold fix_row (g # gs) (s ! a) else s ! a)"
      using s'(3) s1(3) a by simp
  qed
  moreover have "length s \<le> length s'" using s1(2) s'(2) by simp
  ultimately show ?case using s1(1) s'(1) by simp
qed

lemma map_of_fix_row_other:
  "k \<notin> set g \<Longrightarrow> map_of (fix_row g row) k = map_of row k"
  by (auto simp: fix_row_def map_of_overlay map_of_zip_is_None [THEN iffD2]
      split: sum.splits option.splits)

lemma map_of_fix_row_group:
  assumes "distinct g" "set g \<subseteq> set (map fst row)"
    and "first_max (map (\<lambda>l. the (map_of row l)) g) h" "j < length g"
  shows "map_of (fix_row g row) (g ! j) = Some (if j = h then 1 else 0)"
proof -
  let ?vs = "map (\<lambda>l. the (map_of row l)) g"
  have "?vs \<noteq> []" using assms(4) by auto
  then obtain h' where h': "argmax ?vs = Inr h'" "first_max ?vs h'"
    using argmax_first_max [of ?vs] by blast
  have hh: "h' = h" using h'(2) assms(3) by (rule first_max_unique)
  have "g ! j \<in> set (map fst row)" using assms(2,4) by auto
  then obtain w where w: "map_of row (g ! j) = Some w"
    by (cases "map_of row (g ! j)") (auto simp: map_of_eq_None_iff)
  have z: "map_of (zip g (one_hot h (length g))) (g ! j) = Some (one_hot h (length g) ! j)"
    using assms(1,4) by (intro map_of_zip_nth) auto
  show ?thesis
    using h'(1) hh w z assms(4) by (simp add: fix_row_def map_of_overlay)
qed

lemma map_of_fold_fix_row_other:
  "k \<notin> set (concat gs) \<Longrightarrow> map_of (fold fix_row gs row) k = map_of row k"
  by (induction gs arbitrary: row) (auto simp: map_of_fix_row_other)

lemma map_of_fold_fix_row_group:
  assumes "distinct (concat gs)" "g \<in> set gs" "set (concat gs) \<subseteq> set (map fst row)"
    and "first_max (map (\<lambda>l. the (map_of row l)) g) h" "j < length g"
  shows "map_of (fold fix_row gs row) (g ! j) = Some (if j = h then 1 else 0)"
  using assms(1,2,3,4)
proof (induction gs arbitrary: row)
  case Nil
  then show ?case by simp
next
  case (Cons g0 gs)
  have gj: "g ! j \<in> set g" using assms(5) by simp
  show ?case
  proof (cases "g ! j \<in> set g0")
    case True
    have notin: "g ! j \<notin> set (concat gs)" using Cons.prems(1) True by auto
    have "g \<notin> set gs" using notin gj by auto
    then have g0: "g = g0" using Cons.prems(2) by simp
    have "map_of (fold fix_row gs (fix_row g0 row)) (g ! j) = map_of (fix_row g0 row) (g ! j)"
      using notin by (rule map_of_fold_fix_row_other)
    also have "\<dots> = Some (if j = h then 1 else 0)"
      unfolding g0 [symmetric]
      using Cons.prems(1,3,4) assms(5) g0 by (intro map_of_fix_row_group) auto
    finally show ?thesis by simp
  next
    case False
    then have ne: "g \<noteq> g0" using gj by auto
    then have gin: "g \<in> set gs" using Cons.prems(2) by simp
    have disj: "l \<notin> set g0" if "l \<in> set g" for l
      using that gin Cons.prems(1) by auto
    have same: "map (\<lambda>l. the (map_of (fix_row g0 row) l)) g = map (\<lambda>l. the (map_of row l)) g"
      using disj by (simp add: map_of_fix_row_other)
    have "map_of (fold fix_row gs (fix_row g0 row)) (g ! j) = Some (if j = h then 1 else 0)"
    proof (rule Cons.IH)
      show "distinct (concat gs)" using Cons.prems(1) by simp
      show "g \<in> set gs" by (rule gin)
      show "set (concat gs) \<subseteq> set (map fst (fix_row g0 row))" using Cons.prems(3) by simp
      show "first_max (map (\<lambda>l. the (map_of (fix_row g0 row) l)) g) h"
        unfolding same by (rule Cons.prems(4))
    qed
    then show ?thesis by simp
  qed
qed

lemma sum_list_zero: "(\<forall>x \<in> set xs. f x = (0::real)) \<Longrightarrow> sum_list (map f xs) = 0"
  by (induction xs) auto

lemma sum_list_one_hot: "h < n \<Longrightarrow> sum_list (one_hot h n) = 1"
proof -
  assume "h < n"
  then have "[0..<n] = [0..<h] @ h # [Suc h..<n]"
    by (metis le_add_diff_inverse less_imp_le_nat upt_add_eq_append upt_conv_Cons zero_le)
  then have "one_hot h n = map (\<lambda>i. if i = h then 1 else 0) [0..<h] @ 1 #
                map (\<lambda>i. if i = h then 1 else 0) [Suc h..<n]"
    by (simp add: one_hot_def)
  moreover have "sum_list (map (\<lambda>i. if i = h then 1 else (0::real)) [0..<h]) = 0"
    by (rule sum_list_zero) auto
  moreover have "sum_list (map (\<lambda>i. if i = h then 1 else (0::real)) [Suc h..<n]) = 0"
    by (rule sum_list_zero) auto
  ultimately show ?thesis by simp
qed

lemma one_hot_rows_no_rows [simp]: "one_hot_groups gs [] s = Inr s"
  by (induction gs) auto

lemma one_hot_row_empty: "r < length s \<Longrightarrow> one_hot_row [] r s = Inl ValueError"
  by (simp add: one_hot_row_def alloc_def make_one_hot_def)

lemma one_hot_groups_empty_group:
  assumes "distinct rs" "rs \<noteq> []"
    and "\<forall>r\<in>set rs. r < length s \<and> set (concat gs) \<subseteq> set (map fst (s ! r))"
    and "\<forall>g\<in>set gs. distinct g" "[] \<in> set gs"
  shows "one_hot_groups gs rs s = Inl ValueError"
  using assms(3,4,5)
proof (induction gs arbitrary: s)
  case Nil
  then show ?case by simp
next
  case (Cons g gs)
  show ?case
  proof (cases "g = []")
    case True
    obtain r rs' where rs: "rs = r # rs'" using assms(2) by (cases rs) auto
    then have "r < length s" using Cons.prems(1) by simp
    then show ?thesis using True rs by (simp add: one_hot_row_empty)
  next
    case False
    have "\<forall>r\<in>set rs. r < length s \<and> set g \<subseteq> set (map fst (s ! r))"
      using Cons.prems(1) by auto
    moreover have "distinct g" using Cons.prems(2) by auto
    ultimately obtain s1 where s1: "one_hot_rows g rs s = Inr s1" "length s \<le> length s1"
        "\<forall>a < length s. s1 ! a = (if a \<in> set rs then fix_row g (s ! a) else s ! a)"
      using one_hot_rows_ok [OF assms(1), of s g] False by blast
    have "one_hot_groups gs rs s1 = Inl ValueError"
    proof (rule Cons.IH)
      show "\<forall>r\<in>set rs. r < length s1 \<and> set (concat gs) \<subseteq> set (map fst (s1 ! r))"
      proof
        fix r assume r: "r \<in> set rs"
        then have rl: "r < length s" and sub: "set (concat gs) \<subseteq> set (map fst (s ! r))"
          using Cons.prems(1) by auto
        have "s1 ! r = fix_row g (s ! r)" using s1(3) rl r by simp
        then show "r < length s1 \<and> set (concat gs) \<subseteq> set (map fst (s1 ! r))"
          using rl s1(2) sub by simp
      qed
      show "\<forall>g\<in>set gs. distinct g" using Cons.prems(2) by simp
      show "[] \<in> set gs" using Cons.prems(3) False by auto
    qed
    then show ?thesis using s1(1) by simp
  qed
qed

lemma make_categorical_no_rows:
  "rows df = [] \<Longrightarrow> make_categorical gs df = Inr df"
  by (simp add: make_categorical_def iterrows_def)

lemma make_categorical_ok:
  assumes "well_formed df" "set (concat gs) \<subseteq> set (columns df)"
    and "\<forall>g\<in>set gs. distinct g \<and> g \<noteq> []"
  shows "make_categorical gs df =
           Inr (df\<lparr>rows := map (\<lambda>row. map snd (fold fix_row gs (zip (columns df) row)))
                               (rows df)\<rparr>)"
proof -
  let ?n = "length (rows df)"
  let ?s = "iterrows df"
  have len: "length ?s = ?n" by (simp add: iterrows_def)
  have nth: "?s ! r = zip (columns df) (rows df ! r)" if "r < ?n" for r
    using that by (simp add: iterrows_def)
  have lab: "map fst (?s ! r) = columns df" if "r < ?n" for r
    using that assms(1) nth [OF that] by (simp add: well_formed_def)
  have "\<forall>r\<in>set [0..<?n]. r < length ?s \<and> set (concat gs) \<subseteq> set (map fst (?s ! r))"
    using assms(2) lab len by auto
  then obtain s' where s': "one_hot_groups gs [0..<?n] ?s = Inr s'" "length ?s \<le> length s'"
      "\<forall>a < length ?s. s' ! a = (if a \<in> set [0..<?n] then fold fix_row gs (?s ! a) else ?s ! a)"
    using one_hot_groups_ok [of "[0..<?n]" ?s gs] assms(3) by auto
  have "map (map snd) (take ?n s') =
          map (\<lambda>row. map snd (fold fix_row gs (zip (columns df) row))) (rows df)"
  proof (rule nth_equalityI)
    show "length (map (map snd) (take ?n s')) =
            length (map (\<lambda>row. map snd (fold fix_row gs (zip (columns df) row))) (rows df))"
      using s'(2) len by simp
  next
    fix i assume "i < length (map (map snd) (take ?n s'))"
    then have i: "i < ?n" by simp
    have "s' ! i = fold fix_row gs (?s ! i)" using s'(3) i len by simp
    then show "map (map snd) (take ?n s') ! i =
            map (\<lambda>row. map snd (fold fix_row gs (zip (columns df) row))) (rows df) ! i"
      using i s'(2) len nth [OF i] by simp
  qed
  then show ?thesis using s'(1) by (simp add: make_categorical_def)
qed

lemma loc_fixed:
  assumes "well_formed df" "i < length (rows df)"
  shows "loc (df\<lparr>rows := map (\<lambda>row. map snd (fold fix_row gs (zip (columns df) row)))
                               (rows df)\<rparr>) i c
         = the (map_of (fold fix_row gs (zip (columns df) (rows df ! i))) c)"
proof -
  let ?F = "fold fix_row gs (zip (columns df) (rows df ! i))"
  have "length (rows df ! i) = length (columns df)"
    using assms by (simp add: well_formed_def)
  then have "map fst ?F = columns df" by simp
  then have "zip (columns df) (map snd ?F) = ?F"
    by (metis zip_map_fst_snd)
  then show ?thesis using assms(2) by (simp add: loc_def)
qed

text \<open>
  C1. Let the groups be the lists of categorical columns, \<open>one_hot_cols cats\<close> of the
  frame's columns, with no column in two groups. On a frame with at least one row
  the loop raises \<^verbatim>\<open>ValueError\<close> when a group has no column (\<^verbatim>\<open>np.argmax\<close> of an
  empty Series). Otherwise it returns, the frame keeps its columns and its number
  of rows, and in every row \<open>i\<close> and every group \<open>g\<close> the stored values are 1 in the
  first column (in the order of the group's list) holding the largest raw value
  of the group in that row and 0 in the other columns of the group, so the group
  sums to exactly 1.
\<close>

theorem one_hot_repair:
  assumes "well_formed df" "groups = one_hot_cols cats (columns df)"
    and "distinct (concat groups)"
  shows "(rows df \<noteq> [] \<and> [] \<in> set groups \<longrightarrow> make_categorical groups df = Inl ValueError) \<and>
         (rows df = [] \<or> [] \<notin> set groups \<longrightarrow>
            (\<exists>df'. make_categorical groups df = Inr df' \<and>
                   columns df' = columns df \<and> length (rows df') = length (rows df) \<and>
                   (\<forall>i < length (rows df). \<forall>g \<in> set groups.
                      \<exists>h. first_max (map (loc df i) g) h \<and>
                          (\<forall>j < length g. loc df' i (g ! j) = (if j = h then 1 else 0)) \<and>
                          sum_list (map (loc df' i) g) = 1)))"
proof (intro conjI impI)
  have sub: "set (concat groups) \<subseteq> set (columns df)"
    by (auto simp: assms(2) one_hot_cols_def)
  have dist: "\<forall>g\<in>set groups. distinct g"
    using assms(1) by (auto simp: assms(2) one_hot_cols_def well_formed_def)
  let ?n = "length (rows df)"
  let ?s = "iterrows df"
  {
    assume a: "rows df \<noteq> [] \<and> [] \<in> set groups"
    have lab: "map fst (?s ! r) = columns df" if "r < ?n" for r
      using that assms(1) by (simp add: well_formed_def iterrows_def)
    have "one_hot_groups groups [0..<?n] ?s = Inl ValueError"
    proof (rule one_hot_groups_empty_group)
      show "distinct [0..<?n]" by simp
      show "[0..<?n] \<noteq> []" using a by simp
      show "\<forall>r\<in>set [0..<?n]. r < length ?s \<and> set (concat groups) \<subseteq> set (map fst (?s ! r))"
        using sub lab by (auto simp: iterrows_def)
      show "\<forall>g\<in>set groups. distinct g" by (rule dist)
      show "[] \<in> set groups" using a by simp
    qed
    then show "make_categorical groups df = Inl ValueError"
      by (simp add: make_categorical_def)
  }
  {
    assume a: "rows df = [] \<or> [] \<notin> set groups"
    show "\<exists>df'. make_categorical groups df = Inr df' \<and>
                   columns df' = columns df \<and> length (rows df') = length (rows df) \<and>
                   (\<forall>i < length (rows df). \<forall>g \<in> set groups.
                      \<exists>h. first_max (map (loc df i) g) h \<and>
                          (\<forall>j < length g. loc df' i (g ! j) = (if j = h then 1 else 0)) \<and>
                          sum_list (map (loc df' i) g) = 1)"
    proof (cases "rows df = []")
      case True
      then show ?thesis by (simp add: make_categorical_no_rows)
    next
      case False
      then have ne: "\<forall>g\<in>set groups. distinct g \<and> g \<noteq> []" using a dist by auto
      let ?df' = "df\<lparr>rows := map (\<lambda>row. map snd (fold fix_row groups (zip (columns df) row)))
                               (rows df)\<rparr>"
      have mk: "make_categorical groups df = Inr ?df'"
        using assms(1) sub ne by (rule make_categorical_ok)
      have main: "\<exists>h. first_max (map (loc df i) g) h \<and>
                          (\<forall>j < length g. loc ?df' i (g ! j) = (if j = h then 1 else 0)) \<and>
                          sum_list (map (loc ?df' i) g) = 1"
        if i: "i < ?n" and g: "g \<in> set groups" for i g
      proof -
        let ?row = "zip (columns df) (rows df ! i)"
        have raw: "map (loc df i) g = map (\<lambda>l. the (map_of ?row l)) g"
          by (simp add: loc_def)
        have "g \<noteq> []" using ne g by auto
        then obtain h where h: "first_max (map (\<lambda>l. the (map_of ?row l)) g) h"
          using argmax_first_max [of "map (\<lambda>l. the (map_of ?row l)) g"] by auto
        then have hl: "h < length g" by (simp add: first_max_def)
        have "length (rows df ! i) = length (columns df)"
          using assms(1) i by (simp add: well_formed_def)
        then have lab: "map fst ?row = columns df" by simp
        have cell: "loc ?df' i (g ! j) = (if j = h then 1 else 0)" if "j < length g" for j
        proof -
          have sub': "set (concat groups) \<subseteq> set (map fst ?row)"
            unfolding lab by (rule sub)
          have "map_of (fold fix_row groups ?row) (g ! j) = Some (if j = h then 1 else 0)"
            using assms(3) g sub' h that by (rule map_of_fold_fix_row_group)
          then show ?thesis using loc_fixed [OF assms(1) i, of groups "g ! j"] by simp
        qed
        have "map (loc ?df' i) g = one_hot h (length g)"
          using cell by (auto simp: list_eq_iff_nth_eq)
        then have "sum_list (map (loc ?df' i) g) = 1"
          using hl by (simp add: sum_list_one_hot)
        moreover have "first_max (map (loc df i) g) h" unfolding raw by (rule h)
        ultimately show ?thesis using cell by blast
      qed
      show ?thesis using mk main by (intro exI [of _ ?df']) simp
    qed
  }
qed

theorem one_hot_repair_witness:
  "\<exists>df'. make_categorical (one_hot_cols categorical (columns df0)) df0 = Inr df' \<and>
         loc df' 0 ''smoking_status_x'' = 1 \<and> loc df' 0 ''smoking_status_y'' = 0 \<and>
         sum_list (map (loc df' 0) [''smoking_status_x'', ''smoking_status_y'']) = 1"
proof -
  let ?g = "[''smoking_status_x'', ''smoking_status_y'']"
  have wf: "well_formed df0" by (simp add: well_formed_def df0_def)
  have gs: "one_hot_cols categorical (columns df0) =
              [[''gender_f'', ''gender_m''], [''work_type_a''], ?g]"
    by (simp add: one_hot_cols_def categorical_def df0_def)
  have d: "distinct (concat (one_hot_cols categorical (columns df0)))"
    unfolding gs by simp
  have ne: "rows df0 = [] \<or> [] \<notin> set (one_hot_cols categorical (columns df0))"
    unfolding gs by simp
  have i: "0 < length (rows df0)" by (simp add: df0_def)
  have g: "?g \<in> set (one_hot_cols categorical (columns df0))" unfolding gs by simp
  from one_hot_repair [OF wf refl d] ne i g obtain df' h where
    r: "make_categorical (one_hot_cols categorical (columns df0)) df0 = Inr df'"
       "first_max (map (loc df0 0) ?g) h"
       "\<forall>j < length ?g. loc df' 0 (?g ! j) = (if j = h then 1 else 0)"
       "sum_list (map (loc df' 0) ?g) = 1"
    by blast
  have "first_max (map (loc df0 0) ?g) 0"
    by (simp add: first_max_def loc_def df0_def less_Suc_eq)
  with r(2) have "h = 0" by (rule first_max_unique)
  with r(3) have "loc df' 0 (?g ! 0) = 1" "loc df' 0 (?g ! 1) = 0" by auto
  with r(1,4) show ?thesis by auto
qed

subsection \<open>Sequencing and columns\<close>

lemma bind_Inr_iff:
  "bind m f = Inr b \<longleftrightarrow> (\<exists>a. m = Inr a \<and> f a = Inr b)"
  by (cases m) (auto simp: bind_def)

lemma bind_Inl_iff:
  "bind m f = Inl e \<longleftrightarrow> m = Inl e \<or> (\<exists>a. m = Inr a \<and> f a = Inl e)"
  by (cases m) (auto simp: bind_def)

lemma bind_Inr [simp]: "bind (Inr a) f = f a"
  by (simp add: bind_def)

lemma bind_Inl [simp]: "bind (Inl e) f = Inl e"
  by (simp add: bind_def)

lemma index_of_Some:
  "index_of cols c = Some k \<Longrightarrow> k < length cols \<and> cols ! k = c"
  by (induction cols arbitrary: k) (auto split: if_splits)

lemma index_of_None: "index_of cols c = None \<longleftrightarrow> c \<notin> set cols"
  by (induction cols) auto

lemma map_of_zip_index_of:
  "index_of cols c = Some k \<Longrightarrow> length row = length cols \<Longrightarrow>
     map_of (zip cols row) c = Some (row ! k)"
proof (induction cols arbitrary: k row)
  case Nil
  then show ?case by simp
next
  case (Cons x xs)
  then obtain v vs where row: "row = v # vs" by (cases row) auto
  show ?case using Cons by (auto simp: row split: if_splits)
qed

lemma map_of_zip_update:
  "index_of cols c = Some k \<Longrightarrow> length row = length cols \<Longrightarrow>
     map_of (zip cols (row[k := v])) c' = (if c' = c then Some v else map_of (zip cols row) c')"
proof (induction cols arbitrary: k row)
  case Nil
  then show ?case by simp
next
  case (Cons x xs)
  then obtain w ws where row: "row = w # ws" by (cases row) auto
  show ?case using Cons by (auto simp: row split: if_splits)
qed

lemma setitem_col_existing:
  assumes "index_of (columns df) c = Some k" "length vs = length (rows df)"
  shows "setitem_col df c vs = Inr (df\<lparr>rows := map (\<lambda>(r, v). r[k := v]) (zip (rows df) vs)\<rparr>)"
  using assms by (simp add: setitem_col_def)

lemma well_formed_same_shape: "well_formed df \<Longrightarrow> same_shape df"
  by (simp add: well_formed_def same_shape_def)

subsection \<open>Rounding the integer columns\<close>

lemma np_round_of_int [simp]: "np_round (of_int n) = of_int n"
  by (simp add: np_round_def)

lemma np_round_nearest:
  "\<exists>n. np_round x = of_int n \<and> \<bar>x - of_int n\<bar> \<le> 1 / 2 \<and> (\<bar>x - of_int n\<bar> = 1 / 2 \<longrightarrow> even n)"
proof -
  let ?f = "\<lfloor>x\<rfloor>"
  let ?d = "x - of_int ?f"
  have d: "0 \<le> ?d" "?d < 1" by linarith+
  consider "?d < 1 / 2" | "1 / 2 < ?d" | "?d = 1 / 2" "even ?f" | "?d = 1 / 2" "odd ?f"
    by fastforce
  then show ?thesis
  proof cases
    case 1
    then have "np_round x = of_int ?f" by (simp add: np_round_def Let_def)
    moreover have "\<bar>x - of_int ?f\<bar> < 1 / 2" using 1 d by linarith
    ultimately show ?thesis by (intro exI [of _ ?f]) simp
  next
    case 2
    then have "np_round x = of_int (?f + 1)" by (simp add: np_round_def Let_def)
    moreover have "\<bar>x - of_int (?f + 1)\<bar> < 1 / 2" using 2 d by simp
    ultimately show ?thesis by (intro exI [of _ "?f + 1"]) simp
  next
    case 3
    then have "np_round x = of_int ?f" by (simp add: np_round_def Let_def)
    moreover have "\<bar>x - of_int ?f\<bar> = 1 / 2" using 3 by simp
    ultimately show ?thesis using 3(2) by (intro exI [of _ ?f]) simp
  next
    case 4
    then have "np_round x = of_int (?f + 1)" by (simp add: np_round_def Let_def)
    moreover have "\<bar>x - of_int (?f + 1)\<bar> = 1 / 2" using 4 by simp
    ultimately show ?thesis using 4(2) by (intro exI [of _ "?f + 1"]) simp
  qed
qed

lemma round_col_step:
  assumes "getitem_col df c = Inr v" "setitem_col df c (map f v) = Inr df1" "same_shape df"
  shows "columns df1 = columns df \<and> length (rows df1) = length (rows df) \<and> same_shape df1 \<and>
         (\<forall>i < length (rows df). \<forall>c'. loc df1 i c' = (if c' = c then f (loc df i c') else loc df i c'))"
proof -
  from assms(1) obtain k where k: "index_of (columns df) c = Some k"
      and v: "v = map (\<lambda>r. r ! k) (rows df)"
    by (auto simp: getitem_col_def split: option.splits)
  have df1: "df1 = df\<lparr>rows := map (\<lambda>(r, v). r[k := v]) (zip (rows df) (map f v))\<rparr>"
    using assms(2) k v by (simp add: setitem_col_def)
  have rows1: "rows df1 ! i = (rows df ! i)[k := f (rows df ! i ! k)]" if "i < length (rows df)" for i
    using that by (simp add: df1 v)
  have len: "length (rows df ! i) = length (columns df)" if "i < length (rows df)" for i
    using that assms(3) by (simp add: same_shape_def)
  have "loc df1 i c' = (if c' = c then f (loc df i c') else loc df i c')"
    if i: "i < length (rows df)" for i c'
  proof -
    have "map_of (zip (columns df) (rows df ! i)) c = Some (rows df ! i ! k)"
      using k len [OF i] by (rule map_of_zip_index_of)
    then show ?thesis
      using map_of_zip_update [OF k len [OF i], of "f (rows df ! i ! k)" c'] rows1 [OF i]
      by (simp add: loc_def df1)
  qed
  moreover have "same_shape df1"
    using assms(3) by (auto simp: same_shape_def df1 v set_zip)
  ultimately show ?thesis by (simp add: df1 v)
qed

lemma round_integer_cols_spec:
  assumes "round_integer_cols cols df = Inr df'" "same_shape df"
  shows "columns df' = columns df \<and> length (rows df') = length (rows df) \<and> same_shape df' \<and>
         (\<forall>i < length (rows df). \<forall>c. loc df' i c =
              (if c \<in> set cols then np_round (loc df i c) else loc df i c))"
  using assms
proof (induction cols arbitrary: df)
  case Nil
  then show ?case by simp
next
  case (Cons c0 cols)
  from Cons.prems(1) obtain v df1 where
    s: "getitem_col df c0 = Inr v" "setitem_col df c0 (map np_round v) = Inr df1"
       "round_integer_cols cols df1 = Inr df'"
    by (auto simp: bind_Inr_iff)
  note st = round_col_step [OF s(1,2) Cons.prems(2)]
  note ih = Cons.IH [OF s(3)]
  have ih': "columns df' = columns df1" "length (rows df') = length (rows df1)" "same_shape df'"
    "\<forall>i < length (rows df1). \<forall>c. loc df' i c =
              (if c \<in> set cols then np_round (loc df1 i c) else loc df1 i c)"
    using ih st by auto
  have "loc df' i c = (if c \<in> set (c0 # cols) then np_round (loc df i c) else loc df i c)"
    if i: "i < length (rows df)" for i c
  proof -
    obtain n where n: "np_round (loc df i c) = of_int n" using np_round_nearest by blast
    have a: "loc df' i c = (if c \<in> set cols then np_round (loc df1 i c) else loc df1 i c)"
      using ih'(4) i st by simp
    have b: "loc df1 i c = (if c = c0 then np_round (loc df i c) else loc df i c)"
      using st i by simp
    show ?thesis using a b n by auto
  qed
  then show ?case using ih' st by simp
qed

lemma np_round_examples:
  "np_round (5 / 2) = 2" "np_round (7 / 2) = 4" "np_round (1 / 2) = 0" "np_round (- 1 / 2) = 0"
  by (simp_all add: np_round_def Let_def)

text \<open>
  C7 (as the code has it). For every column listed in \<^verbatim>\<open>integer_cols\<close> and every
  record, the stored value is \<^verbatim>\<open>round(0)\<close> of the raw value: a whole number at
  distance at most one half, and when the raw value lies exactly halfway between
  two whole numbers, the even one of the two. It is not rounding half up.
\<close>

theorem integer_cols_half_even:
  assumes "well_formed df" "round_integer_cols cols df = Inr df'"
    and "c \<in> set cols" "i < length (rows df)"
  shows "loc df' i c = np_round (loc df i c) \<and>
         (\<exists>n. loc df' i c = of_int n \<and> \<bar>loc df i c - of_int n\<bar> \<le> 1 / 2 \<and>
              (\<bar>loc df i c - of_int n\<bar> = 1 / 2 \<longrightarrow> even n))"
proof -
  have "loc df' i c = np_round (loc df i c)"
    using round_integer_cols_spec [OF assms(2) well_formed_same_shape [OF assms(1)]] assms(3,4)
    by simp
  then show ?thesis using np_round_nearest [of "loc df i c"] by simp
qed

theorem integer_cols_half_even_witness:
  "\<exists>df'. round_integer_cols integer_cols df_age = Inr df' \<and>
         loc df_age 0 ''age'' = 5 / 2 \<and> loc df' 0 ''age'' = 2 \<and>
         loc df_age 1 ''age'' = 7 / 2 \<and> loc df' 1 ''age'' = 4"
proof -
  have wf: "well_formed df_age" by (simp add: well_formed_def df_age_def)
  have run: "round_integer_cols integer_cols df_age =
               Inr \<lparr>columns = [''age'', ''bmi''], rows = [[2, 20.3], [4, 21]]\<rparr>"
    by (simp add: integer_cols_def df_age_def getitem_col_def setitem_col_def np_round_examples)
  have c: "''age'' \<in> set integer_cols" by (simp add: integer_cols_def)
  have raw: "loc df_age 0 ''age'' = 5 / 2" "loc df_age 1 ''age'' = 7 / 2"
    by (simp_all add: loc_def df_age_def)
  have i: "0 < length (rows df_age)" "1 < length (rows df_age)"
    by (simp_all add: df_age_def)
  let ?df' = "\<lparr>columns = [''age'', ''bmi''], rows = [[2, 20.3], [4, 21]]\<rparr>"
  have "loc ?df' 0 ''age'' = np_round (loc df_age 0 ''age'')"
    by (rule integer_cols_half_even [OF wf run c i(1), THEN conjunct1])
  then have r0: "loc ?df' 0 ''age'' = 2"
    unfolding raw by (simp only: np_round_examples)
  have "loc ?df' 1 ''age'' = np_round (loc df_age 1 ''age'')"
    by (rule integer_cols_half_even [OF wf run c i(2), THEN conjunct1])
  then have r1: "loc ?df' 1 ''age'' = 4"
    unfolding raw by (simp only: np_round_examples)
  show ?thesis using run raw r0 r1 by blast
qed

text \<open>
  The raw value 2.5 in the integer column \<^verbatim>\<open>age\<close> is stored as 2; rounding half
  up would give 3.
\<close>

theorem integer_cols_not_half_up:
  "round_integer_cols integer_cols \<lparr>columns = [''age''], rows = [[2.5]]\<rparr> =
     Inr \<lparr>columns = [''age''], rows = [[2]]\<rparr> \<and> round_half_up 2.5 = 3"
  by (simp add: integer_cols_def getitem_col_def setitem_col_def np_round_examples
      round_half_up_def)

subsection \<open>\<^verbatim>\<open>make_synthetic_data_smote\<close> and the size of the classes\<close>

lemma length_class_rows:
  "length X = length y \<Longrightarrow> length (class_rows X y c) = count_list y c"
  by (induction X y rule: list_induct2) (auto simp: class_rows_def)

lemma set_class_rows: "set (class_rows X y c) \<subseteq> set X"
  by (auto simp: class_rows_def dest: set_zip_leftD)

lemma smote_class_step:
  "smote_loop draws ((c, n) # rest) X y =
     (if n = 0 then smote_loop draws rest X y
      else if length (class_rows X y c) \<le> k_neighbors then Inl ValueError
      else bind (smote_loop draws rest X y) (\<lambda>(X_more, y_more).
             Inr (new_samples draws X y c n @ X_more, replicate (nat n) c @ y_more)))"
  by (simp add: kneighbors_indices_def class_rows_def new_samples_def Let_def comp_def
      not_less [symmetric] less_Suc_eq_le)

lemma length_make_samples:
  "n \<le> length draws \<Longrightarrow> length (make_samples P nn n draws) = n"
  by (simp add: make_samples_def)

lemma length_new_samples:
  assumes "smote_draws_ok n_class (nat n) (draws c)"
  shows "length (new_samples draws X y c n) = nat n"
  using assms by (simp add: new_samples_def smote_draws_ok_def length_make_samples)

lemma neighbour_in_class:
  assumes "k_neighbors < m" "col < k_neighbors"
  shows "tl (take (k_neighbors + 1) (sort_key f [0..<m])) ! col < m"
proof -
  let ?L = "sort_key f [0..<m]"
  have len: "length ?L = m" by simp
  have "col < length (tl (take (k_neighbors + 1) ?L))" using assms by simp
  then have "tl (take (k_neighbors + 1) ?L) ! col = take (k_neighbors + 1) ?L ! Suc col"
    by (rule nth_tl)
  also have "\<dots> = ?L ! Suc col" using assms by simp
  finally have "tl (take (k_neighbors + 1) ?L) ! col \<in> set ?L"
    using assms len by (metis Suc_lessI less_trans_Suc nth_mem not_less_eq)
  then show ?thesis by simp
qed

lemma new_samples_between:
  assumes "smote_draws_ok (length (class_rows X y c)) (nat n) (draws c)"
    and "k_neighbors < length (class_rows X y c)" "r \<in> set (new_samples draws X y c n)"
  shows "between_rows (class_rows X y c) r"
proof -
  let ?P = "class_rows X y c"
  let ?nn = "map (\<lambda>q. tl (take (k_neighbors + 1)
                              (sort_key (\<lambda>i. euclidean q (?P ! i)) [0..<length ?P]))) ?P"
  have k: "0 < k_neighbors" by (simp add: k_neighbors_def)
  from assms(3) obtain idx step where
    d: "(idx, step) \<in> set (draws c)"
    and r: "r = interpolate (?P ! (idx div k_neighbors))
                  (?P ! (?nn ! (idx div k_neighbors) ! (idx mod k_neighbors))) step"
    by (auto simp: new_samples_def make_samples_def Let_def split: if_splits dest: in_set_takeD)
  from d assms(1) have ok: "idx < length ?P * k_neighbors" "0 \<le> step" "step < 1"
    by (auto simp: smote_draws_ok_def list_all_iff)
  have row: "idx div k_neighbors < length ?P"
    using ok(1) k by (simp add: less_mult_imp_div_less)
  have col: "idx mod k_neighbors < k_neighbors" using k by simp
  have "?nn ! (idx div k_neighbors) ! (idx mod k_neighbors) < length ?P"
    using row neighbour_in_class [OF assms(2) col] by simp
  then have q: "?P ! (?nn ! (idx div k_neighbors) ! (idx mod k_neighbors)) \<in> set ?P"
    by (rule nth_mem)
  have p: "?P ! (idx div k_neighbors) \<in> set ?P" using row by (rule nth_mem)
  show ?thesis unfolding between_rows_def using p q ok(2,3) r by blast
qed

lemma count_list_replicate: "count_list (replicate n x) z = (if x = z then n else 0)"
  by (induction n) auto

lemma check_sampling_strategy_two:
  "check_sampling_strategy [(0, n0 + int (count_list y 0)), (1, n1 + int (count_list y 1))] y =
     (if 0 \<in> set y \<and> 1 \<in> set y \<and> 0 \<le> n0 \<and> 0 \<le> n1 then Inr [(0, n0), (1, n1)]
      else Inl ValueError)"
  by (auto simp: check_sampling_strategy_def)

lemma smote_loop_two:
  "smote_loop draws [(0, n0), (1, n1)] X y =
     (if (n0 \<noteq> 0 \<and> length (class_rows X y 0) \<le> k_neighbors) \<or>
         (n1 \<noteq> 0 \<and> length (class_rows X y 1) \<le> k_neighbors) then Inl ValueError
      else Inr (new_samples draws X y 0 n0 @ new_samples draws X y 1 n1,
                replicate (nat n0) 0 @ replicate (nat n1) 1))"
  unfolding smote_class_step smote_loop.simps
  by (auto simp: new_samples_def)

lemma make_synthetic_data_smote_unfold:
  assumes "2 \<le> length number_of_samples"
  shows "make_synthetic_data_smote draws X y number_of_samples =
           bind (fit_resample draws [(0, number_of_samples ! 0 + int (count_list y 0)),
                                     (1, number_of_samples ! 1 + int (count_list y 1))] X y)
             (\<lambda>(X_resampled, y_resampled).
                Inr (drop (length X) X_resampled, drop (length y) y_resampled))"
proof -
  have "0 < length number_of_samples" "1 < length number_of_samples"
    using assms by linarith+
  then show ?thesis
    by (simp add: make_synthetic_data_smote_def getitem_def Let_def)
qed

lemma fit_resample_two:
  assumes "length X = length y"
  shows "fit_resample draws [(0, n0 + int (count_list y 0)), (1, n1 + int (count_list y 1))] X y =
     (if can_oversample y n0 n1
      then Inr (X @ new_samples draws X y 0 n0 @ new_samples draws X y 1 n1,
                y @ replicate (nat n0) 0 @ replicate (nat n1) 1)
      else Inl ValueError)"
proof -
  have len: "length (class_rows X y c) = count_list y c" for c
    using assms by (rule length_class_rows)
  show ?thesis
  proof (cases "0 \<in> set y \<and> 1 \<in> set y \<and> 0 \<le> n0 \<and> 0 \<le> n1")
    case False
    then show ?thesis
      by (auto simp: fit_resample_def check_sampling_strategy_two can_oversample_def)
  next
    case True
    then have "y \<noteq> []" by auto
    then have ne: "X \<noteq> []" using assms by auto
    have pos: "n \<noteq> 0 \<longleftrightarrow> 0 < n" if "0 \<le> n" for n :: int using that by auto
    show ?thesis
      using True ne assms
      by (auto simp: fit_resample_def check_sampling_strategy_two smote_loop_two len
          can_oversample_def not_less simp del: smote_loop.simps)
  qed
qed

lemma euclidean_1d: "euclidean [a] [b] = \<bar>a - b\<bar>"
  by (simp add: euclidean_def)

lemma run_smote:
  "make_synthetic_data_smote draws_smote X_smote y_smote [1, 2] =
     Inr ([[5 / 2], [21 / 2], [25 / 2]], [0, 1, 1])"
  by (simp add: make_synthetic_data_smote_def getitem_def fit_resample_def X_smote_def y_smote_def
      check_sampling_strategy_def kneighbors_indices_def k_neighbors_def euclidean_1d
      make_samples_def draws_smote_def interpolate_def upt_rec numeral_2_eq_2)

text \<open>
  C2 (as the code has it). Let \<open>n0\<close> and \<open>n1\<close> be the two requested numbers and
  let the draws be what numpy hands out. When the requests are not negative, both
  classes occur in \<^verbatim>\<open>y\<close> and every class of which samples are requested has at
  least 6 points, the function returns exactly \<open>n0 + n1\<close> new pairs, \<open>n0\<close> labelled
  0 followed by \<open>n1\<close> labelled 1: they are what follows the given rows in the
  over-sampler's result, none of the given rows, and each new vector lies between
  two rows of its class. In every other case the function raises \<^verbatim>\<open>ValueError\<close>;
  it has no guard of its own.
\<close>

theorem make_synthetic_data_smote_counts:
  assumes "length X = length y" "2 \<le> length number_of_samples"
    and "n0 = number_of_samples ! 0" "n1 = number_of_samples ! 1"
    and "smote_draws_ok (count_list y 0) (nat n0) (draws 0)"
    and "smote_draws_ok (count_list y 1) (nat n1) (draws 1)"
  shows "(\<not> can_oversample y n0 n1 \<longrightarrow>
            make_synthetic_data_smote draws X y number_of_samples = Inl ValueError) \<and>
         (can_oversample y n0 n1 \<longrightarrow>
            (\<exists>X_synthetic y_synthetic.
               make_synthetic_data_smote draws X y number_of_samples =
                 Inr (X_synthetic, y_synthetic) \<and>
               fit_resample draws [(0, n0 + int (count_list y 0)), (1, n1 + int (count_list y 1))]
                 X y = Inr (X @ X_synthetic, y @ y_synthetic) \<and>
               y_synthetic = replicate (nat n0) 0 @ replicate (nat n1) 1 \<and>
               length X_synthetic = length y_synthetic \<and>
               int (length y_synthetic) = n0 + n1 \<and>
               int (count_list y_synthetic 0) = n0 \<and> int (count_list y_synthetic 1) = n1 \<and>
               (\<forall>i < length X_synthetic.
                  between_rows (class_rows X y (y_synthetic ! i)) (X_synthetic ! i))))"
proof (intro conjI impI)
  note unfold = make_synthetic_data_smote_unfold [OF assms(2), of draws X y,
      folded assms(3) assms(4)]
  note fit = fit_resample_two [OF assms(1), of draws n0 n1]
  {
    assume "\<not> can_oversample y n0 n1"
    then show "make_synthetic_data_smote draws X y number_of_samples = Inl ValueError"
      by (simp add: unfold fit)
  }
  {
    assume can: "can_oversample y n0 n1"
    let ?A = "new_samples draws X y 0 n0"
    let ?B = "new_samples draws X y 1 n1"
    let ?Xs = "?A @ ?B"
    let ?ys = "replicate (nat n0) (0 :: real) @ replicate (nat n1) 1"
    have len: "length (class_rows X y c) = count_list y c" for c
      using assms(1) by (rule length_class_rows)
    have lA: "length ?A = nat n0" using assms(5) by (rule length_new_samples)
    have lB: "length ?B = nat n1" using assms(6) by (rule length_new_samples)
    have n: "0 \<le> n0" "0 \<le> n1" using can by (simp_all add: can_oversample_def)
    have run: "make_synthetic_data_smote draws X y number_of_samples = Inr (?Xs, ?ys)"
      using can by (simp add: unfold fit)
    have between: "between_rows (class_rows X y (?ys ! i)) (?Xs ! i)" if i: "i < length ?Xs" for i
    proof (cases "i < nat n0")
      case True
      then have "0 < n0" by simp
      then have k: "k_neighbors < length (class_rows X y 0)"
        using can by (simp add: can_oversample_def len)
      have "?Xs ! i \<in> set ?A" using True lA by (simp add: nth_append)
      then have "between_rows (class_rows X y 0) (?Xs ! i)"
        using assms(5) k unfolding len [symmetric] by (intro new_samples_between) simp_all
      then show ?thesis using True by (simp add: nth_append)
    next
      case False
      then have j: "i - nat n0 < nat n1" using i lA lB by simp
      then have "0 < n1" by simp
      then have k: "k_neighbors < length (class_rows X y 1)"
        using can by (simp add: can_oversample_def len)
      have "?Xs ! i \<in> set ?B" using False j lA lB by (simp add: nth_append)
      then have "between_rows (class_rows X y 1) (?Xs ! i)"
        using assms(6) k unfolding len [symmetric] by (intro new_samples_between) simp_all
      then show ?thesis using False j by (simp add: nth_append)
    qed
    show "\<exists>X_synthetic y_synthetic.
               make_synthetic_data_smote draws X y number_of_samples =
                 Inr (X_synthetic, y_synthetic) \<and>
               fit_resample draws [(0, n0 + int (count_list y 0)), (1, n1 + int (count_list y 1))]
                 X y = Inr (X @ X_synthetic, y @ y_synthetic) \<and>
               y_synthetic = replicate (nat n0) 0 @ replicate (nat n1) 1 \<and>
               length X_synthetic = length y_synthetic \<and>
               int (length y_synthetic) = n0 + n1 \<and>
               int (count_list y_synthetic 0) = n0 \<and> int (count_list y_synthetic 1) = n1 \<and>
               (\<forall>i < length X_synthetic.
                  between_rows (class_rows X y (y_synthetic ! i)) (X_synthetic ! i))"
      using run fit can lA lB n between
      by (intro exI [of _ ?Xs] exI [of _ ?ys]) (simp add: count_list_replicate)
  }
qed

theorem make_synthetic_data_smote_counts_witness:
  "make_synthetic_data_smote draws_smote X_smote y_smote [1, 2] =
     Inr ([[5 / 2], [21 / 2], [25 / 2]], [0, 1, 1]) \<and>
   fit_resample draws_smote [(0, 1 + int (count_list y_smote 0)), (1, 2 + int (count_list y_smote 1))]
     X_smote y_smote = Inr (X_smote @ [[5 / 2], [21 / 2], [25 / 2]], y_smote @ [0, 1, 1]) \<and>
   between_rows (class_rows X_smote y_smote 0) [5 / 2] \<and>
   between_rows (class_rows X_smote y_smote 1) [25 / 2]"
proof -
  let ?n = "[1, 2 :: int]"
  have 1: "length X_smote = length y_smote" by (simp add: X_smote_def y_smote_def)
  have 2: "2 \<le> length ?n" by simp
  have 3: "(1 :: int) = ?n ! 0" and 4: "(2 :: int) = ?n ! 1" by simp_all
  have 5: "smote_draws_ok (count_list y_smote 0) (nat 1) (draws_smote 0)"
    and 6: "smote_draws_ok (count_list y_smote 1) (nat 2) (draws_smote 1)"
    by (simp_all add: smote_draws_ok_def y_smote_def draws_smote_def k_neighbors_def)
  have can: "can_oversample y_smote 1 2"
    by (simp add: can_oversample_def y_smote_def k_neighbors_def)
  from make_synthetic_data_smote_counts [OF 1 2 3 4 5 6] can
  obtain X_synthetic y_synthetic where
    r: "make_synthetic_data_smote draws_smote X_smote y_smote ?n = Inr (X_synthetic, y_synthetic)"
       "fit_resample draws_smote
          [(0, 1 + int (count_list y_smote 0)), (1, 2 + int (count_list y_smote 1))]
          X_smote y_smote = Inr (X_smote @ X_synthetic, y_smote @ y_synthetic)"
       "\<forall>i < length X_synthetic.
          between_rows (class_rows X_smote y_smote (y_synthetic ! i)) (X_synthetic ! i)"
    by blast
  from r(1) have X: "X_synthetic = [[5 / 2], [21 / 2], [25 / 2]]" and y: "y_synthetic = [0, 1, 1]"
    by (simp_all add: run_smote)
  have l: "0 < length X_synthetic" "2 < length X_synthetic" by (simp_all add: X)
  have "between_rows (class_rows X_smote y_smote (y_synthetic ! 0)) (X_synthetic ! 0)"
       "between_rows (class_rows X_smote y_smote (y_synthetic ! 2)) (X_synthetic ! 2)"
    using r(3) l by blast+
  then show ?thesis using r(1,2) by (simp add: X y)
qed

text \<open>
  Three rows, two of class 1, and a request of two new samples of class 1: the
  over-sampler cannot find 6 neighbours among 2 points and the call raises
  \<^verbatim>\<open>ValueError\<close>.
\<close>

theorem make_synthetic_data_smote_small_class:
  "make_synthetic_data_smote draws_smote [[1], [2], [5]] [1, 1, 0] [0, 2] = Inl ValueError"
  by (simp add: make_synthetic_data_smote_def getitem_def fit_resample_def
      check_sampling_strategy_def kneighbors_indices_def k_neighbors_def)

subsection \<open>\<^verbatim>\<open>standardise_data\<close> and features without variance\<close>

lemma fit_ok:
  assumes "X \<noteq> []" "\<forall>r\<in>set X. length r = n"
  shows "fit X = Inr \<lparr>means = map (\<lambda>j. mean (feature X j)) [0..<n],
               scales = map (\<lambda>j. handle_zeros_in_scale (sqrt (variance (feature X j)))) [0..<n]\<rparr>"
  using assms by (cases X) (auto simp: fit_def)

lemma transform_ok:
  assumes "X \<noteq> []" "\<forall>r\<in>set X. length r = length (means sc)"
  shows "transform sc X =
           Inr (map (\<lambda>row. map (\<lambda>(x, m, s). (x - m) / s)
                                (zip row (zip (means sc) (scales sc)))) X)"
  using assms by (simp add: transform_def list_ex_iff)

lemma variance_zero_all_mean:
  assumes "variance xs = 0" "x \<in> set xs"
  shows "x = mean xs"
proof -
  have len: "0 < length xs" using assms(2) by (cases xs) auto
  let ?sq = "map (\<lambda>x. (x - mean xs)\<^sup>2) xs"
  have "sum_list ?sq = 0"
    using assms(1) len by (simp add: variance_def Let_def)
  moreover have "\<forall>v\<in>set ?sq. 0 \<le> v" by auto
  ultimately have "\<forall>v\<in>set ?sq. v = 0"
    using sum_list_nonneg_eq_0_iff [of ?sq] by blast
  then have "(x - mean xs)\<^sup>2 = 0" using assms(2) by auto
  then show ?thesis by simp
qed

text \<open>
  C8 (as the code has it). Fitting on a training set in which feature \<open>j\<close> has
  zero variance does not fail and does not divide by zero: on non-empty sets of
  one width \<^verbatim>\<open>standardise_data\<close> returns, the scale of feature \<open>j\<close> is 1, every
  training value of the feature becomes 0 and every test value becomes its
  difference from the training mean.
\<close>

theorem standardise_data_zero_variance:
  assumes "X_train \<noteq> []" "\<forall>r\<in>set X_train. length r = n"
    and "X_test \<noteq> []" "\<forall>r\<in>set X_test. length r = n"
    and "j < n" "variance (feature X_train j) = 0"
  shows "\<exists>train_std test_std.
           standardise_data X_train X_test = Inr (train_std, test_std) \<and>
           length train_std = length X_train \<and> length test_std = length X_test \<and>
           (\<forall>i < length X_train. train_std ! i ! j = 0) \<and>
           (\<forall>i < length X_test. test_std ! i ! j = X_test ! i ! j - mean (feature X_train j))"
proof -
  let ?ms = "map (\<lambda>j. mean (feature X_train j)) [0..<n]"
  let ?ss = "map (\<lambda>j. handle_zeros_in_scale (sqrt (variance (feature X_train j)))) [0..<n]"
  let ?sc = "\<lparr>means = ?ms, scales = ?ss\<rparr>"
  let ?t = "\<lambda>X. map (\<lambda>row. map (\<lambda>(x, m, s). (x - m) / s) (zip row (zip ?ms ?ss))) X"
  have fit: "fit X_train = Inr ?sc" using assms(1,2) by (rule fit_ok)
  have tr: "transform ?sc X_train = Inr (?t X_train)"
    using transform_ok [of X_train ?sc] assms(1,2) by simp
  have te: "transform ?sc X_test = Inr (?t X_test)"
    using transform_ok [of X_test ?sc] assms(3,4) by simp
  have run: "standardise_data X_train X_test = Inr (?t X_train, ?t X_test)"
    by (simp add: standardise_data_def fit tr te)
  have scale: "?ss ! j = 1" using assms(5,6) by (simp add: handle_zeros_in_scale_def)
  have cell: "?t X ! i ! j = X ! i ! j - mean (feature X_train j)"
    if "i < length X" "\<forall>r\<in>set X. length r = n" for X i
  proof -
    have "length (X ! i) = n" using that by simp
    then show ?thesis using that(1) assms(5) scale by simp
  qed
  have "?t X_train ! i ! j = 0" if i: "i < length X_train" for i
  proof -
    have "X_train ! i ! j \<in> set (feature X_train j)"
      using i by (auto simp: feature_def)
    then have "X_train ! i ! j = mean (feature X_train j)"
      by (rule variance_zero_all_mean [OF assms(6)])
    then show ?thesis using cell [OF i assms(2)] by simp
  qed
  moreover have "?t X_test ! i ! j = X_test ! i ! j - mean (feature X_train j)"
    if "i < length X_test" for i
    using that assms(4) by (rule cell)
  ultimately show ?thesis using run by (intro exI [of _ "?t X_train"] exI [of _ "?t X_test"]) simp
qed

theorem standardise_data_zero_variance_witness:
  "\<exists>train_std test_std.
      standardise_data [[5, 1], [5, 3]] [[7, 2]] = Inr (train_std, test_std) \<and>
      train_std ! 0 ! 0 = 0 \<and> train_std ! 1 ! 0 = 0 \<and> test_std ! 0 ! 0 = 2"
proof -
  let ?X = "[[5, 1], [5, 3 :: real]]"
  let ?T = "[[7, 2 :: real]]"
  have 1: "?X \<noteq> []" and 3: "?T \<noteq> []" by simp_all
  have 2: "\<forall>r\<in>set ?X. length r = 2" and 4: "\<forall>r\<in>set ?T. length r = 2" by simp_all
  have 5: "(0::nat) < 2" by simp
  have m: "mean (feature ?X 0) = 5" by (simp add: feature_def mean_def)
  have 6: "variance (feature ?X 0) = 0" by (simp add: feature_def mean_def variance_def)
  from standardise_data_zero_variance [OF 1 2 3 4 5 6] obtain train_std test_std where
    r: "standardise_data ?X ?T = Inr (train_std, test_std)"
       "\<forall>i < length ?X. train_std ! i ! 0 = 0"
       "\<forall>i < length ?T. test_std ! i ! 0 = ?T ! i ! 0 - mean (feature ?X 0)"
    by blast
  have "train_std ! 0 ! 0 = 0" "train_std ! 1 ! 0 = 0" using r(2) by simp_all
  moreover have "test_std ! 0 ! 0 = 2" using r(3) m by simp
  ultimately show ?thesis using r(1) by blast
qed

text \<open>
  A training set whose first feature is constantly 5: the call returns the
  standardised sets, and raises nothing.
\<close>

theorem standardise_data_zero_variance_example:
  "standardise_data [[5, 1], [5, 3]] [[7, 2]] = Inr ([[0, - 1], [0, 1]], [[2, 0]])"
  by (simp add: standardise_data_def fit_def transform_def feature_def mean_def variance_def
      handle_zeros_in_scale_def upt_rec)

subsection \<open>Sampling to the size and balance of the original data\<close>

lemma boolean_index_filter:
  "boolean_index df (map P (rows df)) = df\<lparr>rows := filter P (rows df)\<rparr>"
proof -
  have "map fst (filter snd (zip xs (map P xs))) = filter P xs" for xs :: "real list list"
    by (induction xs) auto
  then show ?thesis by (simp add: boolean_index_def)
qed

lemma count_list_map_filter:
  "count_list (map f xs) v = length (filter (\<lambda>x. f x = v) xs)"
  by (induction xs) auto

lemma count_list_map_all: "\<forall>x\<in>set xs. f x = v \<Longrightarrow> count_list (map f xs) v = length xs"
  by (induction xs) auto

lemma count_list_map_none: "\<forall>x\<in>set xs. f x \<noteq> v \<Longrightarrow> count_list (map f xs) v = 0"
  by (induction xs) auto

lemma count_list_mset_cong:
  "mset xs = mset ys \<Longrightarrow> count_list (map f xs) v = count_list (map f ys) v"
  by (metis count_mset mset_map)

lemma is_permutation_set:
  assumes "is_permutation n p"
  shows "set p = {0..<n}"
proof -
  from assms have l: "length p = n" and d: "distinct p" and b: "\<forall>i\<in>set p. i < n"
    by (auto simp: is_permutation_def list_all_iff)
  have "card (set p) = n" using d l by (simp add: distinct_card)
  moreover have "set p \<subseteq> {0..<n}" using b by auto
  ultimately show ?thesis by (simp add: card_subset_eq)
qed

lemma is_permutation_mset:
  assumes "is_permutation n p"
  shows "mset p = mset [0..<n]"
proof -
  have "distinct p" using assms by (simp add: is_permutation_def)
  moreover have "set p = set [0..<n]" using is_permutation_set [OF assms] by simp
  moreover have "distinct [0..<n]" by simp
  ultimately show ?thesis using set_eq_iff_mset_eq_distinct [of p "[0..<n]"] by blast
qed

lemma mset_map_nth_permutation:
  assumes "is_permutation (length xs) p"
  shows "mset (map (\<lambda>i. xs ! i) p) = mset xs"
proof -
  have "mset (map (\<lambda>i. xs ! i) p) = image_mset (\<lambda>i. xs ! i) (mset p)" by simp
  also have "\<dots> = image_mset (\<lambda>i. xs ! i) (mset [0..<length xs])"
    using is_permutation_mset [OF assms] by simp
  also have "\<dots> = mset (map (\<lambda>i. xs ! i) [0..<length xs])" by simp
  also have "\<dots> = mset xs" by (simp add: map_nth)
  finally show ?thesis .
qed

lemma mset_map_nth_take:
  assumes "is_permutation (length xs) p"
  shows "mset (map (\<lambda>i. xs ! i) (take n p)) \<subseteq># mset xs"
proof -
  have "mset (take n p) \<subseteq># mset p"
    by (metis append_take_drop_id mset_append mset_subset_eq_add_left)
  then have "image_mset (\<lambda>i. xs ! i) (mset (take n p)) \<subseteq># image_mset (\<lambda>i. xs ! i) (mset p)"
    by (rule image_mset_subseteq_mono)
  then show ?thesis using mset_map_nth_permutation [OF assms] by simp
qed

lemma sample_ok:
  assumes "n \<le> length (rows df)" "is_permutation (length (rows df)) p"
  shows "\<exists>out. sample p n df = Inr out \<and> columns out = columns df \<and>
           length (rows out) = n \<and> mset (rows out) \<subseteq># mset (rows df)"
proof -
  have "length p = length (rows df)" using assms(2) by (simp add: is_permutation_def)
  then have "length (take n p) = n" using assms(1) by simp
  then show ?thesis
    using assms(1) mset_map_nth_take [OF assms(2), of n] by (simp add: sample_def)
qed

lemma sample_frac1_ok:
  assumes "is_permutation (length (rows df)) p"
  shows "sample_frac1 p df = Inr (df\<lparr>rows := map (\<lambda>i. rows df ! i) p\<rparr>) \<and>
         mset (map (\<lambda>i. rows df ! i) p) = mset (rows df)"
proof -
  have "length p = length (rows df)" using assms by (simp add: is_permutation_def)
  then show ?thesis
    using mset_map_nth_permutation [OF assms] by (simp add: sample_frac1_def sample_def)
qed

lemma sample_too_many: "length (rows df) < n \<Longrightarrow> sample p n df = Inl ValueError"
  by (simp add: sample_def)

lemma rebalance_unfold:
  assumes "index_of (columns df) label = Some k"
  shows "rebalance d1 d0 d label np nn df =
           bind (sample d1 np (class_pool k 1 df)) (\<lambda>pos.
           bind (sample d0 nn (class_pool k 0 df)) (\<lambda>neg.
           sample_frac1 d (concat_rows pos neg)))"
proof -
  have g: "getitem_col df label = Inr (map (\<lambda>r. r ! k) (rows df))"
    using assms by (simp add: getitem_col_def)
  have b: "boolean_index df (map (\<lambda>v. v = c) (map (\<lambda>r. r ! k) (rows df))) = class_pool k c df"
    for c
    using boolean_index_filter [of df "\<lambda>r. r ! k = c"] by (simp add: class_pool_def comp_def)
  show ?thesis unfolding rebalance_def g bind_Inr b ..
qed

lemma class_pool_size:
  "length (rows (class_pool k v df)) = count_list (map (\<lambda>r. r ! k) (rows df)) v"
  by (simp add: class_pool_def count_list_map_filter)

lemma class_pools_disjoint:
  assumes "mset A \<subseteq># mset (rows (class_pool k 1 df))" "mset B \<subseteq># mset (rows (class_pool k 0 df))"
  shows "mset (A @ B) \<subseteq># mset (rows df)"
proof -
  let ?M = "mset (rows df)"
  have a: "mset A \<subseteq># filter_mset (\<lambda>r. r ! k = 1) ?M"
    using assms(1) by (simp add: class_pool_def)
  have "filter_mset (\<lambda>r. r ! k = 0) ?M \<subseteq># filter_mset (\<lambda>r. \<not> r ! k = 1) ?M"
    by (rule filter_mset_mono_strong) auto
  then have b: "mset B \<subseteq># filter_mset (\<lambda>r. \<not> r ! k = 1) ?M"
    using assms(2) by (simp add: class_pool_def subset_mset.order_trans)
  have "mset A + mset B \<subseteq># filter_mset (\<lambda>r. r ! k = 1) ?M + filter_mset (\<lambda>r. \<not> r ! k = 1) ?M"
    using a b by (rule subset_mset.add_mono)
  then show ?thesis by simp
qed

lemma rebalance_run:
  assumes k: "index_of (columns df) label = Some k"
    and np: "np \<le> length (rows (class_pool k 1 df))"
    and nn: "nn \<le> length (rows (class_pool k 0 df))"
    and d1: "is_permutation (length (rows (class_pool k 1 df))) d1"
    and d0: "is_permutation (length (rows (class_pool k 0 df))) d0"
  shows "\<exists>R. length R = np + nn \<and> mset R \<subseteq># mset (rows df) \<and>
             count_list (map (\<lambda>r. r ! k) R) 1 = np \<and>
             count_list (map (\<lambda>r. r ! k) R) 0 = nn \<and>
             (\<forall>d. rebalance d1 d0 d label np nn df = sample_frac1 d (df\<lparr>rows := R\<rparr>))"
proof -
  from sample_ok [OF np d1] obtain pos where
    pos: "sample d1 np (class_pool k 1 df) = Inr pos" "columns pos = columns (class_pool k 1 df)"
         "length (rows pos) = np" "mset (rows pos) \<subseteq># mset (rows (class_pool k 1 df))"
    by blast
  from sample_ok [OF nn d0] obtain neg where
    neg: "sample d0 nn (class_pool k 0 df) = Inr neg" "columns neg = columns (class_pool k 0 df)"
         "length (rows neg) = nn" "mset (rows neg) \<subseteq># mset (rows (class_pool k 0 df))"
    by blast
  let ?R = "rows pos @ rows neg"
  have posdf: "pos = df\<lparr>rows := rows pos\<rparr>"
    using pos(1) by (auto simp: sample_def class_pool_def split: if_splits)
  have cat: "concat_rows pos neg = df\<lparr>rows := ?R\<rparr>"
    by (subst posdf) (simp add: concat_rows_def)
  have run: "rebalance d1 d0 d label np nn df = sample_frac1 d (df\<lparr>rows := ?R\<rparr>)" for d
    by (simp add: rebalance_unfold [OF k] pos(1) neg(1) cat)
  have p1: "\<forall>r\<in>set (rows pos). r ! k = 1"
    using mset_subset_eqD [OF pos(4)] by (auto simp: class_pool_def)
  have n0: "\<forall>r\<in>set (rows neg). r ! k = 0"
    using mset_subset_eqD [OF neg(4)] by (auto simp: class_pool_def)
  have c1: "count_list (map (\<lambda>r. r ! k) ?R) 1 = np"
    using p1 n0 pos(3) by (simp add: count_list_map_all count_list_map_none)
  have c0: "count_list (map (\<lambda>r. r ! k) ?R) 0 = nn"
    using p1 n0 neg(3) by (simp add: count_list_map_all count_list_map_none)
  have sub: "mset ?R \<subseteq># mset (rows df)"
    using pos(4) neg(4) by (rule class_pools_disjoint)
  show ?thesis
    using run c1 c0 sub pos(3) neg(3) by (intro exI [of _ ?R]) simp
qed

lemma getitem_col_index:
  "getitem_col df c = Inr y \<Longrightarrow>
     \<exists>k. index_of (columns df) c = Some k \<and> y = map (\<lambda>r. r ! k) (rows df)"
  by (auto simp: getitem_col_def split: option.splits)

lemma rebalance_too_few:
  assumes "index_of (columns df) label = Some k"
    and "length (rows (class_pool k 1 df)) < np \<or> length (rows (class_pool k 0 df)) < nn"
  shows "rebalance d1 d0 d label np nn df = Inl ValueError"
proof (cases "length (rows (class_pool k 1 df)) < np")
  case True
  then show ?thesis by (simp add: rebalance_unfold [OF assms(1)] sample_too_many)
next
  case False
  then have "length (rows (class_pool k 0 df)) < nn" using assms(2) by simp
  then have "sample d0 nn (class_pool k 0 df) = Inl ValueError" by (rule sample_too_many)
  moreover obtain pos where "sample d1 np (class_pool k 1 df) = Inr pos"
    using False by (simp add: sample_def)
  ultimately show ?thesis by (simp add: rebalance_unfold [OF assms(1)])
qed

text \<open>
  C3 (as the code has it). Let the draws be permutations of the sizes at hand.
  The cell raises \<^verbatim>\<open>ValueError\<close>, the exception of \<^verbatim>\<open>DataFrame.sample\<close>, when the
  pool holds fewer records of a class than the target of that class. Otherwise it
  returns a frame with the columns of the pool, holding exactly the target number
  of records of each class, and no record more often than the pool holds it
  (the draw is without replacement): nothing is padded and nothing is missing.
  The notebook has no exception class of its own.
\<close>

theorem rebalance_exact_counts:
  assumes "getitem_col synth_df label = Inr y"
    and "is_permutation (count_list y 1) draw1" "is_permutation (count_list y 0) draw0"
    and "is_permutation (npos + nneg) draw"
  shows "(count_list y 1 < npos \<or> count_list y 0 < nneg \<longrightarrow>
            rebalance draw1 draw0 draw label npos nneg synth_df = Inl ValueError) \<and>
         (npos \<le> count_list y 1 \<and> nneg \<le> count_list y 0 \<longrightarrow>
            (\<exists>out y'. rebalance draw1 draw0 draw label npos nneg synth_df = Inr out \<and>
                columns out = columns synth_df \<and> getitem_col out label = Inr y' \<and>
                count_list y' 1 = npos \<and> count_list y' 0 = nneg \<and>
                length (rows out) = npos + nneg \<and>
                mset (rows out) \<subseteq># mset (rows synth_df)))"
proof (intro conjI impI)
  from getitem_col_index [OF assms(1)] obtain k where
    k: "index_of (columns synth_df) label = Some k" and y: "y = map (\<lambda>r. r ! k) (rows synth_df)"
    by blast
  have size: "length (rows (class_pool k v synth_df)) = count_list y v" for v
    by (simp add: class_pool_size y)
  {
    assume "count_list y 1 < npos \<or> count_list y 0 < nneg"
    then show "rebalance draw1 draw0 draw label npos nneg synth_df = Inl ValueError"
      using rebalance_too_few [OF k] by (simp add: size)
  }
  {
    assume a: "npos \<le> count_list y 1 \<and> nneg \<le> count_list y 0"
    from rebalance_run [OF k, of npos nneg draw1 draw0] a assms(2,3) obtain R where
      R: "length R = npos + nneg" "mset R \<subseteq># mset (rows synth_df)"
         "count_list (map (\<lambda>r. r ! k) R) 1 = npos" "count_list (map (\<lambda>r. r ! k) R) 0 = nneg"
         "\<forall>d. rebalance draw1 draw0 d label npos nneg synth_df = sample_frac1 d (synth_df\<lparr>rows := R\<rparr>)"
      unfolding size by blast
    let ?out = "synth_df\<lparr>rows := map (\<lambda>i. R ! i) draw\<rparr>"
    have perm: "is_permutation (length (rows (synth_df\<lparr>rows := R\<rparr>))) draw"
      using assms(4) R(1) by simp
    have sh: "sample_frac1 draw (synth_df\<lparr>rows := R\<rparr>) = Inr ?out"
         "mset (map (\<lambda>i. R ! i) draw) = mset R"
      using sample_frac1_ok [OF perm] by simp_all
    have run: "rebalance draw1 draw0 draw label npos nneg synth_df = Inr ?out"
      using R(5) sh(1) by simp
    have g: "getitem_col ?out label = Inr (map (\<lambda>r. r ! k) (map (\<lambda>i. R ! i) draw))"
      using k by (simp add: getitem_col_def)
    have c: "count_list (map (\<lambda>r. r ! k) (map (\<lambda>i. R ! i) draw)) v
               = count_list (map (\<lambda>r. r ! k) R) v" for v
      using sh(2) by (rule count_list_mset_cong)
    have len: "length (rows ?out) = npos + nneg"
      using assms(4) by (simp add: is_permutation_def)
    have sub: "mset (rows ?out) \<subseteq># mset (rows synth_df)" using sh(2) R(2) by simp
    show "\<exists>out y'. rebalance draw1 draw0 draw label npos nneg synth_df = Inr out \<and>
                columns out = columns synth_df \<and> getitem_col out label = Inr y' \<and>
                count_list y' 1 = npos \<and> count_list y' 0 = nneg \<and>
                length (rows out) = npos + nneg \<and>
                mset (rows out) \<subseteq># mset (rows synth_df)"
      using run g c R(3,4) len sub by (intro exI [of _ ?out] exI) auto
  }
qed

theorem rebalance_exact_counts_witness:
  "\<exists>out y'. rebalance [1, 0] [0, 1] [2, 0, 1] y_label 2 1 df_pool = Inr out \<and>
         getitem_col out y_label = Inr y' \<and> count_list y' 1 = 2 \<and> count_list y' 0 = 1 \<and>
         length (rows out) = 3 \<and> mset (rows out) \<subseteq># mset (rows df_pool)"
proof -
  have g: "getitem_col df_pool y_label = Inr [0, 1, 0, 1]"
    by (simp add: getitem_col_def df_pool_def y_label_def)
  have p1: "is_permutation (count_list [0, 1, 0, 1 :: real] 1) [1, 0]"
    and p0: "is_permutation (count_list [0, 1, 0, 1 :: real] 0) [0, 1]"
    and p: "is_permutation (2 + 1) [2, 0, 1]"
    by (simp_all add: is_permutation_def)
  have enough: "2 \<le> count_list [0, 1, 0, 1 :: real] 1 \<and> 1 \<le> count_list [0, 1, 0, 1 :: real] 0"
    by simp
  from rebalance_exact_counts [OF g p1 p0 p] enough show ?thesis
    by (simp only: numeral_plus_one semiring_norm) blast
qed

text \<open>
  A pool with two records of class 1 and a target of three: the exception raised
  is \<^verbatim>\<open>ValueError\<close>.
\<close>

theorem rebalance_raises_ValueError:
  "rebalance [1, 0] [0, 1] [2, 0, 1, 3] y_label 3 1 df_pool = Inl ValueError"
  by (simp add: rebalance_def getitem_col_def df_pool_def y_label_def boolean_index_def
      sample_def)

subsection \<open>The notebook on the small data set\<close>

text \<open>
  Each cell evaluated on the example: the processing cell shuffles the three
  synthetic records to the order second, third, first; the distances
  \<open>0, 1/2, 1\<close> are those of the first, second and third.
\<close>

lemma sqrt_facts:
  "sqrt 9 = 3" "sqrt 16 = 4" "sqrt 25 = 5" "sqrt 81 = 9" "sqrt (1 / 4) = 1 / 2"
  "sqrt (9 / 4) = 3 / 2" "sqrt (81 / 4) = 9 / 2"
  by (rule real_sqrt_unique; simp add: power2_eq_square)+

lemma mean_ex: "mean [40, 42] = 41" "mean [0, 0] = 0" "mean [1, 1] = 1"
  by (simp_all add: mean_def)

lemma variance_ex: "variance [40, 42] = 1" "variance [0, 0] = 0" "variance [1, 1] = 0"
  by (simp_all add: variance_def mean_def)

lemma np_round_ex: "np_round 40 = 40" "np_round (81 / 2) = 40" "np_round 41 = 41"
  "np_round 0 = 0" "np_round 1 = 1"
  by (simp_all add: np_round_def Let_def)

lemma fit_ex:
  "fit X_train_ex = Inr \<lparr>means = [41, 0, 0, 1, 0, 1, 1, 1], scales = [1, 1, 1, 1, 1, 1, 1, 1]\<rparr>"
  by (simp add: fit_def X_train_ex_def feature_def upt_rec mean_ex variance_ex
      handle_zeros_in_scale_def)

lemma standardise_ex:
  "standardise_data X_train_ex X_test_ex =
     Inr ([[- 1, 0, 0, 0, 0, 0, 0, 0], [1, 0, 0, 0, 0, 0, 0, 0]], X_test_std_ex)"
  by (simp add: standardise_data_def fit_ex)
     (simp add: transform_def X_train_ex_def X_test_ex_def X_test_std_ex_def)

lemma standardise_synth_ex:
  "standardise_data X_train_ex (rows X_synthetic_ex) =
     Inr ([[- 1, 0, 0, 0, 0, 0, 0, 0], [1, 0, 0, 0, 0, 0, 0, 0]],
          [[- 1, 0, 0, 0, 0, 0, 0, 0], [- 1 / 2, 0, 0, 0, 0, 0, 0, 0], [0, 0, 0, 0, 0, 0, 0, 0]])"
  by (simp add: standardise_data_def fit_ex)
     (simp add: transform_def X_train_ex_def X_synthetic_ex_def)

lemma kneighbors_ex:
  "kneighbors ([[- 1, 0, 0, 0, 0, 0, 0, 0], [1, 0, 0, 0, 0, 0, 0, 0]] @ X_test_std_ex)
      [[- 1, 0, 0, 0, 0, 0, 0, 0], [- 1 / 2, 0, 0, 0, 0, 0, 0, 0], [0, 0, 0, 0, 0, 0, 0, 0]]
    = Inr ([0, 1 / 2, 1], [0, 0, 0])"
  by (simp add: nearest_def euclidean_def sqrt_facts X_test_std_ex_def)

lemma one_hot_cols_ex:
  "one_hot_cols categorical stroke_columns =
     [[''gender_female''], [''work_type_private''], [''smoking_status_smokes'']]"
  by (simp add: one_hot_cols_def categorical_def stroke_columns_def)

lemma make_categorical_ex:
  "make_categorical (one_hot_cols categorical (columns X_synthetic_ex)) X_synthetic_ex =
     Inr X_synthetic_ex"
  unfolding X_synthetic_ex_def dataframe.simps one_hot_cols_ex
  by (simp add: make_categorical_def iterrows_def stroke_columns_def one_hot_row_def alloc_def
      make_one_hot_def imul_def setitem_pos_def upt_rec)

lemma process_ex:
  "process_raw_synthetic [1, 2, 0] categorical integer_cols binary_cols y_label
      X_synthetic_ex [1, 1, 1] = Inr synth_df_ex"
  unfolding process_raw_synthetic_def Let_def make_categorical_ex bind_Inr
  by (simp add: X_synthetic_ex_def synth_df_ex_def stroke_columns_def integer_cols_def
      binary_cols_def y_label_def getitem_col_def setitem_col_def np_round_ex clip_def
      sample_frac1_def sample_def)

lemma find_nearest_ex:
  "find_nearest X_train_ex X_test_std_ex X_synthetic_ex synth_df_ex = Inr annotated_ex"
  unfolding find_nearest_def standardise_synth_ex bind_Inr prod.case Let_def kneighbors_ex
  by (simp add: setitem_col_def synth_df_ex_def annotated_ex_def stroke_columns_def)

lemma remove_ex:
  "bind (remove_identical annotated_ex) (remove_closest [0]) = Inr survivors_ex"
  by (simp add: remove_identical_def remove_closest_def getitem_col_def stroke_columns_def
      boolean_index_def sort_values_desc_def head_def proportion_to_remove_def
      sample_frac1_def sample_def annotated_ex_def survivors_ex_def)

lemma novelty_filter_ex:
  "novelty_filter [0] X_train_ex X_test_std_ex X_synthetic_ex synth_df_ex = Inr survivors_ex"
  unfolding novelty_filter_def find_nearest_ex bind_Inr by (rule remove_ex)

lemma distances_to_real_ex:
  "distances_to_real X_train_ex X_test_std_ex [[40, 0, 0, 1, 0, 1, 1, 1]] = Inr [0]"
  by (simp add: distances_to_real_def standardise_data_def fit_ex)
     (simp add: transform_def X_train_ex_def X_test_std_ex_def nearest_def euclidean_def
        sqrt_facts)

lemma rebalance_ex:
  "rebalance [0] [] [0] y_label 1 0 survivors_ex = Inr survivors_ex"
  by (simp add: rebalance_def getitem_col_def survivors_ex_def stroke_columns_def y_label_def
      boolean_index_def sample_def sample_frac1_def concat_rows_def)

lemma notebook_ex:
  "notebook draws_ex categorical integer_cols binary_cols y_label X_train_ex X_test_ex
      X_synthetic_ex [1, 1, 1] 1 0 = Inr survivors_ex"
  unfolding notebook_def standardise_ex bind_Inr prod.case draws_ex_def draws.simps
    process_ex novelty_filter_ex
  by (rule rebalance_ex)

subsection \<open>The columns of the last frame\<close>

lemma columns_setitem_col:
  "setitem_col df c vs = Inr df' \<Longrightarrow>
     columns df' = (if c \<in> set (columns df) then columns df else columns df @ [c])"
  using index_of_None [of "columns df" c]
  by (auto simp: setitem_col_def split: if_splits option.splits)

lemma columns_round_step:
  assumes "getitem_col df c = Inr v" "setitem_col df c vs = Inr df'"
  shows "columns df' = columns df"
proof -
  have "c \<in> set (columns df)"
    using assms(1) index_of_None [of "columns df" c]
    by (auto simp: getitem_col_def split: option.splits)
  then show ?thesis using columns_setitem_col [OF assms(2)] by simp
qed

lemma columns_round_integer_cols:
  "round_integer_cols cols df = Inr df' \<Longrightarrow> columns df' = columns df"
proof (induction cols arbitrary: df)
  case Nil
  then show ?case by simp
next
  case (Cons c cols)
  from Cons.prems obtain v df1 where
    s: "getitem_col df c = Inr v" "setitem_col df c (map np_round v) = Inr df1"
       "round_integer_cols cols df1 = Inr df'"
    by (auto simp: bind_Inr_iff)
  show ?case using Cons.IH [OF s(3)] columns_round_step [OF s(1,2)] by simp
qed

lemma columns_round_binary_cols:
  "round_binary_cols cols df = Inr df' \<Longrightarrow> columns df' = columns df"
proof (induction cols arbitrary: df)
  case Nil
  then show ?case by simp
next
  case (Cons c cols)
  from Cons.prems obtain v df1 where
    s: "getitem_col df c = Inr v"
       "setitem_col df c (map (\<lambda>x. np_round (clip x 0 1)) v) = Inr df1"
       "round_binary_cols cols df1 = Inr df'"
    by (auto simp: bind_Inr_iff)
  show ?case using Cons.IH [OF s(3)] columns_round_step [OF s(1,2)] by simp
qed

lemma columns_make_categorical:
  "make_categorical gs df = Inr df' \<Longrightarrow> columns df' = columns df"
  by (auto simp: make_categorical_def split: sum.splits)

lemma columns_sample: "sample p n df = Inr df' \<Longrightarrow> columns df' = columns df"
  by (auto simp: sample_def split: if_splits)

lemma columns_sample_frac1: "sample_frac1 p df = Inr df' \<Longrightarrow> columns df' = columns df"
  unfolding sample_frac1_def by (rule columns_sample)

lemma columns_process_raw_synthetic:
  assumes "process_raw_synthetic draw cats int_cols bin_cols label X_synthetic y_synthetic = Inr df"
  shows "columns df = (if label \<in> set (columns X_synthetic) then columns X_synthetic
                       else columns X_synthetic @ [label])"
proof -
  from assms obtain d1 d2 d3 d4 where
    s: "make_categorical (one_hot_cols cats (columns X_synthetic)) X_synthetic = Inr d1"
       "round_integer_cols int_cols d1 = Inr d2" "round_binary_cols bin_cols d2 = Inr d3"
       "setitem_col d3 label y_synthetic = Inr d4" "sample_frac1 draw d4 = Inr df"
    by (auto simp: process_raw_synthetic_def Let_def bind_Inr_iff)
  have "columns d3 = columns X_synthetic"
    using columns_make_categorical [OF s(1)] columns_round_integer_cols [OF s(2)]
      columns_round_binary_cols [OF s(3)] by simp
  then show ?thesis
    using columns_setitem_col [OF s(4)] columns_sample_frac1 [OF s(5)] by simp
qed

lemma columns_find_nearest:
  assumes "find_nearest X_train X_test_std X_synthetic synth_df = Inr df"
    and "''distance_to_closest_real'' \<notin> set (columns synth_df)"
    and "''closest_X_real_row_index'' \<notin> set (columns synth_df)"
  shows "columns df = columns synth_df @
           [''distance_to_closest_real'', ''closest_X_real_row_index'']"
proof -
  from assms(1) obtain dists idxs d1 where
    s: "setitem_col synth_df ''distance_to_closest_real'' dists = Inr d1"
       "setitem_col d1 ''closest_X_real_row_index'' (map real idxs) = Inr df"
    by (auto simp: find_nearest_def Let_def bind_Inr_iff split: prod.splits)
  have 1: "columns d1 = columns synth_df @ [''distance_to_closest_real'']"
    using columns_setitem_col [OF s(1)] assms(2) by simp
  show ?thesis using columns_setitem_col [OF s(2)] assms(3) by (simp add: 1)
qed

lemma columns_remove_identical:
  "remove_identical df = Inr df' \<Longrightarrow> columns df' = columns df"
  by (auto simp: remove_identical_def Let_def bind_Inr_iff boolean_index_def)

lemma columns_remove_closest:
  "remove_closest draw df = Inr df' \<Longrightarrow> columns df' = columns df"
  by (auto simp: remove_closest_def Let_def bind_Inr_iff sort_values_desc_def head_def
      split: option.splits dest!: columns_sample_frac1)

lemma columns_novelty_filter:
  assumes "novelty_filter draw X_train X_test_std X_synthetic synth_df = Inr df"
    and "''distance_to_closest_real'' \<notin> set (columns synth_df)"
    and "''closest_X_real_row_index'' \<notin> set (columns synth_df)"
  shows "columns df = columns synth_df @
           [''distance_to_closest_real'', ''closest_X_real_row_index'']"
proof -
  from assms(1) obtain d1 d2 where
    s: "find_nearest X_train X_test_std X_synthetic synth_df = Inr d1"
       "remove_identical d1 = Inr d2" "remove_closest draw d2 = Inr df"
    by (auto simp: novelty_filter_def bind_Inr_iff)
  show ?thesis
    using columns_find_nearest [OF s(1) assms(2,3)] columns_remove_identical [OF s(2)]
      columns_remove_closest [OF s(3)] by simp
qed

lemma columns_rebalance:
  assumes "rebalance d1 d0 d label np nn df = Inr out"
  shows "columns out = columns df"
proof -
  from assms obtain y :: "real list" and pos neg where
    s: "sample d1 np (boolean_index df (map (\<lambda>v. v = 1) y)) = Inr pos"
       "sample d0 nn (boolean_index df (map (\<lambda>v. v = 0) y)) = Inr neg"
       "sample_frac1 d (concat_rows pos neg) = Inr out"
    by (auto simp: rebalance_def bind_Inr_iff)
  have "columns pos = columns df"
    using columns_sample [OF s(1)] by (simp add: boolean_index_def)
  then show ?thesis using columns_sample_frac1 [OF s(3)] by (simp add: concat_rows_def)
qed

text \<open>
  C9 (as the code has it). Let the label and the two names
  \<^verbatim>\<open>distance_to_closest_real\<close> and \<^verbatim>\<open>closest_X_real_row_index\<close> be new names, none of
  them a feature column. Then the frame the notebook ends with has the columns of
  the input in the order of the input, then the label column, and after it the
  two columns \<^verbatim>\<open>distance_to_closest_real\<close> and \<^verbatim>\<open>closest_X_real_row_index\<close>, which
  no cell drops.
\<close>

theorem notebook_columns:
  assumes "notebook dr cats int_cols bin_cols label X_train X_test X_synthetic y_synthetic
             npos nneg = Inr out"
    and "distinct (columns X_synthetic @
           [label, ''distance_to_closest_real'', ''closest_X_real_row_index''])"
  shows "columns out = columns X_synthetic @
           [label, ''distance_to_closest_real'', ''closest_X_real_row_index'']"
proof -
  from assms(1) obtain X_test_std :: "real list list" and d1 d2 where
    s: "process_raw_synthetic (shuffle_processed dr) cats int_cols bin_cols label
          X_synthetic y_synthetic = Inr d1"
       "novelty_filter (shuffle_kept dr) X_train X_test_std X_synthetic d1 = Inr d2"
       "rebalance (pick_positive dr) (pick_negative dr) (shuffle_final dr) label npos nneg d2
          = Inr out"
    by (auto simp: notebook_def bind_Inr_iff split: prod.splits)
  have 1: "columns d1 = columns X_synthetic @ [label]"
    using columns_process_raw_synthetic [OF s(1)] assms(2) by simp
  have 2: "columns d2 = columns d1 @ [''distance_to_closest_real'', ''closest_X_real_row_index'']"
    using s(2) assms(2) by (intro columns_novelty_filter) (auto simp: 1)
  show ?thesis using columns_rebalance [OF s(3)] by (simp add: 1 2)
qed

theorem notebook_columns_witness:
  "notebook draws_ex categorical integer_cols binary_cols y_label X_train_ex X_test_ex
      X_synthetic_ex [1, 1, 1] 1 0 = Inr survivors_ex \<and>
   columns survivors_ex = columns X_synthetic_ex @
      [y_label, ''distance_to_closest_real'', ''closest_X_real_row_index'']"
proof -
  have d: "distinct (columns X_synthetic_ex @
             [y_label, ''distance_to_closest_real'', ''closest_X_real_row_index''])"
    by (simp add: X_synthetic_ex_def stroke_columns_def y_label_def)
  from notebook_columns [OF notebook_ex d] notebook_ex show ?thesis by simp
qed

text \<open>
  On the small data set the last frame has two columns after the label: its
  columns are not the feature columns followed by the label alone.
\<close>

theorem notebook_keeps_annotation_columns:
  "notebook draws_ex categorical integer_cols binary_cols y_label X_train_ex X_test_ex
      X_synthetic_ex [1, 1, 1] 1 0 = Inr survivors_ex \<and>
   columns survivors_ex \<noteq> columns X_synthetic_ex @ [y_label]"
  using notebook_ex by (simp add: survivors_ex_def X_synthetic_ex_def)

subsection \<open>The novelty filter\<close>

text \<open>
  The removal of identical points keeps exactly the rows whose stored distance is
  not below 0.001, and the removal of the closest tenth keeps some of these: every
  row that is left has a stored distance of at least 0.001.
\<close>

lemma remove_identical_rows:
  assumes "index_of (columns df) ''distance_to_closest_real'' = Some k"
  shows "remove_identical df = Inr (df\<lparr>rows := filter (\<lambda>r. \<not> r ! k < 0.001) (rows df)\<rparr>)"
proof -
  have g: "getitem_col df ''distance_to_closest_real'' = Inr (map (\<lambda>r. r ! k) (rows df))"
    using assms by (simp add: getitem_col_def)
  have "boolean_index df (map (\<lambda>b. b = False) (map (\<lambda>x. x < 0.001) (map (\<lambda>r. r ! k) (rows df))))
          = boolean_index df (map (\<lambda>r. \<not> r ! k < 0.001) (rows df))"
    by (simp add: comp_def)
  then show ?thesis
    unfolding remove_identical_def g bind_Inr Let_def
    by (simp only: boolean_index_filter)
qed

lemma set_map_nth_take:
  "\<forall>i\<in>set p. i < length R \<Longrightarrow> set (map (\<lambda>i. R ! i) (take m p)) \<subseteq> set R"
  by (auto dest: in_set_takeD)

lemma remove_closest_rows_subset:
  assumes "remove_closest draw df = Inr df'" "is_permutation (length (rows df')) draw"
  shows "set (rows df') \<subseteq> set (rows df)"
proof -
  from assms(1) obtain k where
    k: "index_of (columns df) ''distance_to_closest_real'' = Some k"
    by (auto simp: remove_closest_def bind_Inr_iff sort_values_desc_def split: option.splits)
  let ?n = "nat \<lfloor>real (length (rows df)) * (1 - proportion_to_remove)\<rfloor>"
  let ?R = "take ?n (sort_key (\<lambda>r. - (r ! k)) (rows df))"
  have rows: "rows df' = map (\<lambda>i. ?R ! i) (take (length ?R) draw)"
    using assms(1) k
    by (auto simp: remove_closest_def sort_values_desc_def head_def Let_def sample_frac1_def
        sample_def split: if_splits)
  have "length draw = length (rows df')" using assms(2) by (simp add: is_permutation_def)
  then have "length draw = min (length ?R) (length draw)" unfolding rows by simp
  then have le: "length draw \<le> length ?R" by linarith
  have "\<forall>i\<in>set draw. i < length (rows df')"
    using assms(2) by (simp add: is_permutation_def list_all_iff)
  then have "\<forall>i\<in>set draw. i < length ?R"
    using le \<open>length draw = length (rows df')\<close> by fastforce
  then have "set (rows df') \<subseteq> set ?R"
    unfolding rows by (rule set_map_nth_take)
  also have "\<dots> \<subseteq> set (sort_key (\<lambda>r. - (r ! k)) (rows df))" by (rule set_take_subset)
  finally show ?thesis by simp
qed

lemma kept_distances_at_least_threshold:
  assumes "remove_identical df = Inr df1" "remove_closest draw df1 = Inr out"
    and "is_permutation (length (rows out)) draw"
    and "getitem_col out ''distance_to_closest_real'' = Inr d"
  shows "\<forall>x\<in>set d. 0.001 \<le> x"
proof -
  from assms(1) obtain k where
    k: "index_of (columns df) ''distance_to_closest_real'' = Some k"
    by (auto simp: remove_identical_def bind_Inr_iff getitem_col_def split: option.splits)
  have r1: "rows df1 = filter (\<lambda>r. \<not> r ! k < 0.001) (rows df)" and c1: "columns df1 = columns df"
    using assms(1) remove_identical_rows [OF k] by auto
  have sub: "set (rows out) \<subseteq> set (rows df1)"
    using assms(2,3) by (rule remove_closest_rows_subset)
  have "columns out = columns df" using columns_remove_closest [OF assms(2)] c1 by simp
  then have "d = map (\<lambda>r. r ! k) (rows out)"
    using assms(4) k by (simp add: getitem_col_def)
  then show ?thesis using sub r1 by auto
qed

text \<open>
  C4. Every record that survives the novelty filter should be at a standardised
  Euclidean distance of at least 0.001 from its nearest real point. The stored
  distance of a record is not its own: the distances are computed from
  \<^verbatim>\<open>X_synthetic\<close> in its first order and assigned by position to \<^verbatim>\<open>synth_df\<close>
  after the shuffle. On the small data set the shuffle puts the synthetic point
  that equals the first training record in third place, where it is given the
  distance 1 of the third point; it survives both removals, and its distance to
  the nearest real point, computed as the notebook computes distances, is 0.
\<close>

theorem survivor_equal_to_real_record:
  "standardise_data X_train_ex X_test_ex =
     Inr ([[- 1, 0, 0, 0, 0, 0, 0, 0], [1, 0, 0, 0, 0, 0, 0, 0]], X_test_std_ex) \<and>
   process_raw_synthetic [1, 2, 0] categorical integer_cols binary_cols y_label
      X_synthetic_ex [1, 1, 1] = Inr synth_df_ex \<and>
   novelty_filter [0] X_train_ex X_test_std_ex X_synthetic_ex synth_df_ex = Inr survivors_ex \<and>
   rows survivors_ex = [[40, 0, 0, 1, 0, 1, 1, 1] @ [1, 1, 0]] \<and>
   getitem_col survivors_ex ''distance_to_closest_real'' = Inr [1] \<and>
   distances_to_real X_train_ex X_test_std_ex [[40, 0, 0, 1, 0, 1, 1, 1]] = Inr [0] \<and>
   X_train_ex ! 0 = [40, 0, 0, 1, 0, 1, 1, 1]"
  using standardise_ex process_ex novelty_filter_ex distances_to_real_ex
  by (simp add: survivors_ex_def getitem_col_def stroke_columns_def X_train_ex_def)

lemma find_nearest_one:
  "find_nearest X_train_ex X_test_std_ex X_synthetic_one synth_df_one = Inr annotated_one"
  unfolding find_nearest_def standardise_data_def fit_ex bind_Inr
  by (simp add: transform_def X_train_ex_def X_synthetic_one_def X_test_std_ex_def nearest_def
      euclidean_def sqrt_facts setitem_col_def synth_df_one_def annotated_one_def
      stroke_columns_def)

text \<open>
  C6 (as the code has it). When every stored distance is below 0.001, the novelty
  filter raises nothing: it returns the frame with its columns and no row, for
  every draw of its shuffle. The notebook has no check for an empty result.
\<close>

theorem novelty_filter_all_identical:
  assumes "find_nearest X_train X_test_std X_synthetic synth_df = Inr df"
    and "getitem_col df ''distance_to_closest_real'' = Inr d"
    and "list_all (\<lambda>x. x < 0.001) d"
  shows "novelty_filter draw X_train X_test_std X_synthetic synth_df = Inr (df\<lparr>rows := []\<rparr>)"
proof -
  from getitem_col_index [OF assms(2)] obtain k where
    k: "index_of (columns df) ''distance_to_closest_real'' = Some k"
    and d: "d = map (\<lambda>r. r ! k) (rows df)"
    by blast
  have "filter (\<lambda>r. \<not> r ! k < 0.001) (rows df) = []"
    using assms(3) by (auto simp: d list_all_iff filter_empty_conv)
  then have 1: "remove_identical df = Inr (df\<lparr>rows := []\<rparr>)"
    using remove_identical_rows [OF k] by simp
  have 2: "remove_closest draw (df\<lparr>rows := []\<rparr>) = Inr (df\<lparr>rows := []\<rparr>)"
    using k by (simp add: remove_closest_def sort_values_desc_def head_def sample_frac1_def
        sample_def)
  show ?thesis by (simp add: novelty_filter_def assms(1) 1 2)
qed

theorem novelty_filter_all_identical_witness:
  "find_nearest X_train_ex X_test_std_ex X_synthetic_one synth_df_one = Inr annotated_one \<and>
   getitem_col annotated_one ''distance_to_closest_real'' = Inr [0] \<and>
   novelty_filter [] X_train_ex X_test_std_ex X_synthetic_one synth_df_one =
     Inr (annotated_one\<lparr>rows := []\<rparr>)"
proof -
  have g: "getitem_col annotated_one ''distance_to_closest_real'' = Inr [0]"
    by (simp add: getitem_col_def annotated_one_def stroke_columns_def)
  have a: "list_all (\<lambda>x. x < 0.001) [0 :: real]" by simp
  from novelty_filter_all_identical [OF find_nearest_one g a] find_nearest_one g
  show ?thesis by simp
qed

text \<open>
  Two synthetic points equal to the two training records: the filter returns a
  frame without rows.
\<close>

theorem novelty_filter_returns_empty:
  "novelty_filter [] X_train_ex X_test_std_ex X_synthetic_two synth_df_two =
     Inr \<lparr>columns = stroke_columns @
                      [''stroke'', ''distance_to_closest_real'', ''closest_X_real_row_index''],
          rows = []\<rparr>"
  unfolding novelty_filter_def find_nearest_def standardise_data_def fit_ex bind_Inr
  by (simp add: transform_def X_train_ex_def X_synthetic_two_def X_test_std_ex_def nearest_def
      euclidean_def sqrt_facts setitem_col_def synth_df_two_def stroke_columns_def
      remove_identical_def remove_closest_def getitem_col_def 
      boolean_index_def sort_values_desc_def head_def proportion_to_remove_def
      sample_frac1_def sample_def)

end
